theory Spec2Isabelle
  imports Main
begin

section \<open>The Loki log window of true-love-n\<close>

text \<open>
  The repository carries the log page's composable \<open>useLokiLogs\<close> twice: one copy attaches
  itself to \<open>window\<close> and asks the backend for 50 lines per query, the other is an ES
  module and asks for 500. Both keep the same reactive state and the same operations;
  they differ in the scan direction of two queries and in the scroll handler. The model
  below follows the source text of both and takes the copy as a parameter.

  Timestamps and clock readings are integer-valued Numbers of the source (milliseconds
  since the epoch); the model has no \<open>NaN\<close> and no infinity. What the composable does to
  the document is kept as a count of the calls of \<open>scrollLokiToBottom\<close>; the scroll
  offsets it writes (\<open>scrollToTop\<close>, the offset restored after an older-load in the
  module) and the display string \<open>lokiTimeRange\<close> are not part of the model.
\<close>

subsection \<open>Data\<close>

record LogEntry =
  timestamp :: int
  service :: string
  raw :: string
  time_str :: string

datatype direction = Forward | Backward

text \<open>One outbound query \<open>/admin/loki/logs?start_ms=..&end_ms=..&limit=..&direction=..\<close>.\<close>

record request =
  start_ms :: int
  end_ms :: int
  limit :: nat
  scan :: direction

text \<open>
  What awaiting \<open>api.fetchLokiLogs\<close> yields: the promise rejects with an error message,
  or it resolves to a body whose \<open>data\<close> or \<open>data.logs\<close> is missing, or to a body with
  a list of log lines (possibly empty).
\<close>

datatype response = FetchError string | NoLogs | Logs "LogEntry list"

text \<open>
  Calls of \<open>showToast\<close>: the message of a caught error with type \<open>error\<close>, or the fixed
  success message of \<open>refreshLokiLogs\<close>.
\<close>

datatype toast = ErrorToast string | RefreshedToast

datatype variant = WindowAttached | ModuleScoped

text \<open>
  The refs of the composable, followed by what the model records of its surroundings:
  the queries sent so far, the toasts shown, the number of calls of
  \<open>scrollLokiToBottom\<close>, and the suspended callers (how many \<open>initLokiLogs\<close> calls wait
  for their response, and whether a \<open>refreshLokiLogs\<close> call waits for the newer-load it
  started). \<open>lokiPollTimer\<close> is \<open>True\<close> when the interval handle is not null.
\<close>

record lokiState =
  lokiServices :: "string list"
  lokiServiceFilter :: "string list"
  lokiLogs :: "LogEntry list"
  lokiLoading :: bool
  lokiLoadingOlder :: bool
  lokiLoadingNewer :: bool
  lokiAutoScroll :: bool
  lokiPolling :: bool
  lokiCanLoadOlder :: bool
  lokiPollTimer :: bool
  lokiEarliestMs :: int
  lokiLatestMs :: int
  fetches :: "request list"
  toasts :: "toast list"
  scrollsToBottom :: nat
  initsAwaiting :: nat
  refreshAwaiting :: bool

definition initialState :: lokiState where
  "initialState =
     \<lparr> lokiServices = [''ai'', ''base'', ''server''],
       lokiServiceFilter = [''ai'', ''base'', ''server''],
       lokiLogs = [],
       lokiLoading = False,
       lokiLoadingOlder = False,
       lokiLoadingNewer = False,
       lokiAutoScroll = True,
       lokiPolling = False,
       lokiCanLoadOlder = True,
       lokiPollTimer = False,
       lokiEarliestMs = 0,
       lokiLatestMs = 0,
       fetches = [],
       toasts = [],
       scrollsToBottom = 0,
       initsAwaiting = 0,
       refreshAwaiting = False \<rparr>"

subsection \<open>Numbers\<close>

text \<open>
  The source computes in binary64: a sum or difference of two integer-valued Numbers is
  the exact result rounded to the nearest Number, ties to the even significand. Up to
  \<open>2 ^ 53 = 9007199254740992\<close> in magnitude every integer is a Number; above, the
  Numbers are the multiples of \<open>ulp\<close>, the power of two that leaves 53 significant bits.
  Magnitudes stay below \<open>2 ^ 1024\<close>: adding or subtracting a constant to a finite Number
  does not overflow.
\<close>

function ulp :: "nat \<Rightarrow> nat" where
  "ulp n = (if n < 9007199254740992 then 1 else 2 * ulp (n div 2))"
  by pat_completeness auto
termination
  by (relation "measure id") auto

declare ulp.simps [simp del]

definition roundNat :: "nat \<Rightarrow> nat" where
  "roundNat n =
     (let u = ulp n; q = n div u; r = n mod u
      in if 2 * r > u \<or> (2 * r = u \<and> odd q) then (q + 1) * u else q * u)"

definition toNumber :: "int \<Rightarrow> int" where
  "toNumber x = (if x < 0 then - int (roundNat (nat (- x))) else int (roundNat (nat x)))"

definition numSub :: "int \<Rightarrow> int \<Rightarrow> int" where
  "numSub a b = toNumber (a - b)"

definition numAdd :: "int \<Rightarrow> int \<Rightarrow> int" where
  "numAdd a b = toNumber (a + b)"

subsection \<open>The deduplication key\<close>

text \<open>
  The source builds the key \<open>l.timestamp + '|' + l.raw\<close>: the decimal rendering of the
  number, a bar, the raw line. \<open>show_int\<close> is that rendering for an integer (from
  \<open>10 ^ 21\<close> in magnitude the source prints an exponent form instead, which tells
  different Numbers apart as well).
\<close>

definition digit_char :: "nat \<Rightarrow> char" where
  "digit_char d = char_of (48 + d)"

function show_nat :: "nat \<Rightarrow> string" where
  "show_nat n =
     (if n < 10 then [digit_char n] else show_nat (n div 10) @ [digit_char (n mod 10)])"
  by pat_completeness auto
termination
  by (relation "measure id") auto

declare show_nat.simps [simp del]

definition show_int :: "int \<Rightarrow> string" where
  "show_int i = (if i < 0 then CHR ''-'' # show_nat (nat (- i)) else show_nat (nat i))"

definition entryKey :: "LogEntry \<Rightarrow> string" where
  "entryKey l = show_int (timestamp l) @ ''|'' @ raw l"

subsection \<open>Derived view and synchronous operations\<close>

definition filteredLokiLogs :: "lokiState \<Rightarrow> LogEntry list" where
  "filteredLokiLogs st =
     (if length (lokiServiceFilter st) = length (lokiServices st) then lokiLogs st
      else filter (\<lambda>log. service log \<in> set (lokiServiceFilter st)) (lokiLogs st))"

definition clearLokiLogs :: "lokiState \<Rightarrow> lokiState" where
  "clearLokiLogs st =
     st\<lparr> lokiLogs := [], lokiEarliestMs := 0, lokiLatestMs := 0, lokiCanLoadOlder := True \<rparr>"

text \<open>\<open>indexOf\<close> finds the first occurrence and \<open>splice(idx, 1)\<close> removes it.\<close>

definition toggleServiceFilter :: "string \<Rightarrow> lokiState \<Rightarrow> lokiState" where
  "toggleServiceFilter svc st =
     (if svc \<in> set (lokiServiceFilter st)
      then (if length (lokiServiceFilter st) > 1
            then st\<lparr> lokiServiceFilter := remove1 svc (lokiServiceFilter st) \<rparr>
            else st)
      else st\<lparr> lokiServiceFilter := lokiServiceFilter st @ [svc] \<rparr>)"

definition scrollLokiToBottom :: "lokiState \<Rightarrow> lokiState" where
  "scrollLokiToBottom st = st\<lparr> scrollsToBottom := Suc (scrollsToBottom st) \<rparr>"

definition toggleLokiAutoScroll :: "lokiState \<Rightarrow> lokiState" where
  "toggleLokiAutoScroll st =
     (let st1 = st\<lparr> lokiAutoScroll := \<not> lokiAutoScroll st \<rparr>
      in if lokiAutoScroll st1 then scrollLokiToBottom st1 else st1)"

definition startLokiPolling :: "lokiState \<Rightarrow> lokiState" where
  "startLokiPolling st =
     (if lokiPollTimer st then st else st\<lparr> lokiPolling := True, lokiPollTimer := True \<rparr>)"

definition stopLokiPolling :: "lokiState \<Rightarrow> lokiState" where
  "stopLokiPolling st =
     (if lokiPollTimer st then st\<lparr> lokiPollTimer := False \<rparr> else st)\<lparr> lokiPolling := False \<rparr>"

subsection \<open>fetchLokiLogs: the query and the merge\<close>

definition fetchLimit :: "variant \<Rightarrow> nat" where
  "fetchLimit v = (case v of WindowAttached \<Rightarrow> 50 | ModuleScoped \<Rightarrow> 500)"

definition initDirection :: "variant \<Rightarrow> direction" where
  "initDirection v = (case v of WindowAttached \<Rightarrow> Backward | ModuleScoped \<Rightarrow> Forward)"

definition olderDirection :: "variant \<Rightarrow> direction" where
  "olderDirection v = (case v of WindowAttached \<Rightarrow> Backward | ModuleScoped \<Rightarrow> Forward)"

text \<open>
  \<open>fetchLokiLogs\<close> suspends once, at \<open>await api.fetchLokiLogs(..)\<close>. \<open>fetchLokiLogs_send\<close>
  is the part before the suspension (the query leaves), \<open>fetchLokiLogs_recv\<close> the part
  after it, run on the state as it is when the response arrives. It returns the number
  of entries added. JavaScript's \<open>sort\<close> is stable, as \<open>sort_key\<close> is, and the
  comparator \<open>a.timestamp - b.timestamp\<close> has the sign of the exact difference
  (lemma \<open>toNumber_sign\<close>), so it orders by timestamp.
\<close>

definition fetchLokiLogs_send ::
  "variant \<Rightarrow> int \<Rightarrow> int \<Rightarrow> direction \<Rightarrow> lokiState \<Rightarrow> lokiState" where
  "fetchLokiLogs_send v startMs endMs d st =
     st\<lparr> fetches := fetches st @
          [\<lparr> start_ms = startMs, end_ms = endMs, limit = fetchLimit v, scan = d \<rparr>] \<rparr>"

definition fetchLokiLogs_recv :: "response \<Rightarrow> bool \<Rightarrow> lokiState \<Rightarrow> nat \<times> lokiState" where
  "fetchLokiLogs_recv result prepend st =
     (case result of
        FetchError message \<Rightarrow> (0, st\<lparr> toasts := toasts st @ [ErrorToast message] \<rparr>)
      | NoLogs \<Rightarrow> (0, st)
      | Logs newLogs \<Rightarrow>
          if length newLogs = 0
          then (0, if prepend then st\<lparr> lokiCanLoadOlder := False \<rparr> else st)
          else
            let existingKeys = set (map entryKey (lokiLogs st));
                uniqueNewLogs = filter (\<lambda>l. entryKey l \<notin> existingKeys) newLogs
            in if length uniqueNewLogs = 0 then (0, st)
               else
                 let merged = sort_key timestamp
                       (if prepend then uniqueNewLogs @ lokiLogs st
                        else lokiLogs st @ uniqueNewLogs);
                     st1 = st\<lparr> lokiLogs := merged \<rparr>;
                     st2 = (if length merged > 0
                            then st1\<lparr> lokiEarliestMs := timestamp (hd merged),
                                      lokiLatestMs := timestamp (last merged) \<rparr>
                            else st1)
                 in (length uniqueNewLogs, st2))"

subsection \<open>The three loading operations\<close>

text \<open>
  Each operation is split at its \<open>await\<close>: \<open>_call\<close> runs up to the suspension,
  \<open>_resume\<close> from the response to the end. The unsplit functions run the operation with
  nothing in between.
\<close>

definition initLokiLogs_call :: "variant \<Rightarrow> int \<Rightarrow> lokiState \<Rightarrow> lokiState" where
  "initLokiLogs_call v now st =
     (let st1 = st\<lparr> lokiLoading := True, lokiLogs := [], lokiCanLoadOlder := True \<rparr>;
          oneHourAgo = numSub now (60 * 60 * 1000);
          st2 = fetchLokiLogs_send v oneHourAgo now (initDirection v) st1
      in st2\<lparr> initsAwaiting := Suc (initsAwaiting st2) \<rparr>)"

definition initLokiLogs_resume :: "response \<Rightarrow> lokiState \<Rightarrow> lokiState" where
  "initLokiLogs_resume result st =
     (let st1 = snd (fetchLokiLogs_recv result False st);
          st2 = scrollLokiToBottom (st1\<lparr> lokiLoading := False \<rparr>)
      in st2\<lparr> initsAwaiting := initsAwaiting st2 - 1 \<rparr>)"

definition initLokiLogs :: "variant \<Rightarrow> int \<Rightarrow> response \<Rightarrow> lokiState \<Rightarrow> lokiState" where
  "initLokiLogs v now result st = initLokiLogs_resume result (initLokiLogs_call v now st)"

definition loadOlderLogs_skips :: "lokiState \<Rightarrow> bool" where
  "loadOlderLogs_skips st =
     (lokiLoadingOlder st \<or> \<not> lokiCanLoadOlder st \<or> length (lokiLogs st) = 0)"

definition loadOlderLogs_call :: "variant \<Rightarrow> lokiState \<Rightarrow> lokiState" where
  "loadOlderLogs_call v st =
     (if loadOlderLogs_skips st then st
      else
        let st1 = st\<lparr> lokiLoadingOlder := True \<rparr>;
            endMs = numSub (lokiEarliestMs st1) 1;
            startMs = numSub endMs (60 * 60 * 1000)
        in fetchLokiLogs_send v startMs endMs (olderDirection v) st1)"

definition loadOlderLogs_resume :: "response \<Rightarrow> lokiState \<Rightarrow> lokiState" where
  "loadOlderLogs_resume result st =
     (let (count, st1) = fetchLokiLogs_recv result True st;
          st2 = (if count = 0 then st1\<lparr> lokiCanLoadOlder := False \<rparr> else st1)
      in st2\<lparr> lokiLoadingOlder := False \<rparr>)"

definition loadOlderLogs :: "variant \<Rightarrow> response \<Rightarrow> lokiState \<Rightarrow> lokiState" where
  "loadOlderLogs v result st =
     (if loadOlderLogs_skips st then st
      else loadOlderLogs_resume result (loadOlderLogs_call v st))"

text \<open>
  \<open>loadNewerLogs\<close> reads the clock twice: \<open>now1\<close> only when \<open>lokiLatestMs\<close> is not
  positive, \<open>now2\<close> for the end of the range. It returns the count, or nothing
  (\<open>undefined\<close>) when it returns at its guard.
\<close>

definition loadNewerLogs_call :: "variant \<Rightarrow> int \<Rightarrow> int \<Rightarrow> lokiState \<Rightarrow> lokiState" where
  "loadNewerLogs_call v now1 now2 st =
     (if lokiLoadingNewer st then st
      else
        let st1 = st\<lparr> lokiLoadingNewer := True \<rparr>;
            startMs = (if lokiLatestMs st1 > 0 then numAdd (lokiLatestMs st1) 1
                       else numSub now1 (60 * 60 * 1000));
            endMs = now2
        in fetchLokiLogs_send v startMs endMs Forward st1)"

definition loadNewerLogs_resume :: "response \<Rightarrow> lokiState \<Rightarrow> nat \<times> lokiState" where
  "loadNewerLogs_resume result st =
     (let (count, st1) = fetchLokiLogs_recv result False st;
          st2 = (if count > 0 \<and> lokiAutoScroll st1 then scrollLokiToBottom st1 else st1)
      in (count, st2\<lparr> lokiLoadingNewer := False \<rparr>))"

definition loadNewerLogs ::
  "variant \<Rightarrow> int \<Rightarrow> int \<Rightarrow> response \<Rightarrow> lokiState \<Rightarrow> nat option \<times> lokiState" where
  "loadNewerLogs v now1 now2 result st =
     (if lokiLoadingNewer st then (None, st)
      else
        let (count, st1) = loadNewerLogs_resume result (loadNewerLogs_call v now1 now2 st)
        in (Some count, st1))"

definition refreshLokiLogs ::
  "variant \<Rightarrow> int \<Rightarrow> int \<Rightarrow> response \<Rightarrow> lokiState \<Rightarrow> lokiState" where
  "refreshLokiLogs v now1 now2 result st =
     (let st1 = snd (loadNewerLogs v now1 now2 result st)
      in st1\<lparr> toasts := toasts st1 @ [RefreshedToast] \<rparr>)"

text \<open>
  The scroll handler does nothing in the window-attached copy. In the module it reads
  \<open>scrollTop\<close>, \<open>scrollHeight\<close> and \<open>clientHeight\<close> of the container (nothing when the
  container ref is null) and may start both loads.
\<close>

definition handleLokiScroll ::
  "variant \<Rightarrow> (int \<times> int \<times> int) option \<Rightarrow> int \<Rightarrow> int \<Rightarrow> lokiState \<Rightarrow> lokiState" where
  "handleLokiScroll v metrics now1 now2 st =
     (case v of
        WindowAttached \<Rightarrow> st
      | ModuleScoped \<Rightarrow>
          (case metrics of
             None \<Rightarrow> st
           | Some (scrollTop, scrollHeight, clientHeight) \<Rightarrow>
               let atBottom = numSub (numSub scrollHeight scrollTop) clientHeight < 100;
                   st1 = st\<lparr> lokiAutoScroll := atBottom \<rparr>;
                   st2 = (if atBottom \<and> \<not> lokiLoadingNewer st1
                          then loadNewerLogs_call v now1 now2 st1 else st1)
               in if scrollTop < 50 \<and> \<not> lokiLoadingOlder st2 \<and> lokiCanLoadOlder st2
                  then loadOlderLogs_call v st2 else st2))"

subsection \<open>Interleavings\<close>

text \<open>
  The page runs on one task queue: between two suspensions a function runs alone. An
  event is a call from the page, a tick of the polling timer, or the arrival of the
  response a suspended operation waits for. A response event happens only while its
  operation is suspended; a tick only while the timer is set.
\<close>

datatype event =
    InitCall int
  | InitResponse response
  | OlderCall
  | OlderResponse response
  | NewerCall int int
  | NewerResponse response
  | RefreshCall int int
  | PollTick int int
  | Clear
  | Toggle string
  | ToggleAutoScroll
  | StartPolling
  | StopPolling
  | Scroll "(int \<times> int \<times> int) option" int int

definition newerResponse :: "response \<Rightarrow> lokiState \<Rightarrow> lokiState" where
  "newerResponse result st =
     (if lokiLoadingNewer st
      then
        let st1 = snd (loadNewerLogs_resume result st)
        in if refreshAwaiting st1
           then st1\<lparr> toasts := toasts st1 @ [RefreshedToast], refreshAwaiting := False \<rparr>
           else st1
      else st)"

definition refreshCall :: "variant \<Rightarrow> int \<Rightarrow> int \<Rightarrow> lokiState \<Rightarrow> lokiState" where
  "refreshCall v now1 now2 st =
     (if lokiLoadingNewer st then st\<lparr> toasts := toasts st @ [RefreshedToast] \<rparr>
      else (loadNewerLogs_call v now1 now2 st)\<lparr> refreshAwaiting := True \<rparr>)"

fun step :: "variant \<Rightarrow> event \<Rightarrow> lokiState \<Rightarrow> lokiState" where
  "step v (InitCall now) st = initLokiLogs_call v now st"
| "step v (InitResponse result) st =
     (if initsAwaiting st > 0 then initLokiLogs_resume result st else st)"
| "step v OlderCall st = loadOlderLogs_call v st"
| "step v (OlderResponse result) st =
     (if lokiLoadingOlder st then loadOlderLogs_resume result st else st)"
| "step v (NewerCall now1 now2) st = loadNewerLogs_call v now1 now2 st"
| "step v (NewerResponse result) st = newerResponse result st"
| "step v (RefreshCall now1 now2) st = refreshCall v now1 now2 st"
| "step v (PollTick now1 now2) st =
     (if lokiPollTimer st then loadNewerLogs_call v now1 now2 st else st)"
| "step v Clear st = clearLokiLogs st"
| "step v (Toggle svc) st = toggleServiceFilter svc st"
| "step v ToggleAutoScroll st = toggleLokiAutoScroll st"
| "step v StartPolling st = startLokiPolling st"
| "step v StopPolling st = stopLokiPolling st"
| "step v (Scroll metrics now1 now2) st = handleLokiScroll v metrics now1 now2 st"

definition run :: "variant \<Rightarrow> event list \<Rightarrow> lokiState \<Rightarrow> lokiState" where
  "run v es st = foldl (\<lambda>s e. step v e s) st es"

subsection \<open>Auxiliary definitions\<close>

text \<open>
  The lines of a response whose key is not yet in the window (\<open>uniqueNewLogs\<close> in the
  source), and a run of responses handed to \<open>fetchLokiLogs\<close> one after the other, each
  with its own \<open>prepend\<close> flag.
\<close>

definition uniqueNew :: "LogEntry list \<Rightarrow> lokiState \<Rightarrow> LogEntry list" where
  "uniqueNew newLogs st =
     filter (\<lambda>l. entryKey l \<notin> set (map entryKey (lokiLogs st))) newLogs"

fun mergeAll :: "(response \<times> bool) list \<Rightarrow> lokiState \<Rightarrow> lokiState" where
  "mergeAll [] st = st"
| "mergeAll ((result, prepend) # ops) st = mergeAll ops (snd (fetchLokiLogs_recv result prepend st))"

subsection \<open>Example data\<close>

text \<open>Log lines on which the operations are run in the examples below.\<close>

definition entryA :: LogEntry where
  "entryA = \<lparr> timestamp = 1699998000000, service = ''ai'', raw = ''started'',
              time_str = ''2023-11-14 21:40:00'' \<rparr>"

definition entryB :: LogEntry where
  "entryB = \<lparr> timestamp = 1699999000000, service = ''base'', raw = ''listening'',
              time_str = ''2023-11-14 21:56:40'' \<rparr>"

definition entryC :: LogEntry where
  "entryC = \<lparr> timestamp = 1699990000000, service = ''server'', raw = ''older line'',
              time_str = ''2023-11-14 19:26:40'' \<rparr>"

definition entryZero :: LogEntry where
  "entryZero = \<lparr> timestamp = 0, service = ''ai'', raw = ''epoch'',
                 time_str = ''1970-01-01 00:00:00'' \<rparr>"

definition entryFar :: LogEntry where
  "entryFar = \<lparr> timestamp = 9007199254740994, service = ''ai'', raw = ''far ahead'',
                time_str = ''far ahead'' \<rparr>"

lemmas example_defs = entryA_def entryB_def entryC_def initialState_def

subsection \<open>Events that are responses, and a loaded window\<close>

text \<open>
  \<open>loadedState\<close> is the window-attached composable after one \<open>initLokiLogs\<close> at
  1700000000000 ms whose query returned \<open>entryB\<close> and \<open>entryA\<close>.
\<close>

fun isOlderResponse :: "event \<Rightarrow> bool" where
  "isOlderResponse (OlderResponse r) = True"
| "isOlderResponse e = False"

fun isNewerResponse :: "event \<Rightarrow> bool" where
  "isNewerResponse (NewerResponse r) = True"
| "isNewerResponse e = False"

definition loadedState :: lokiState where
  "loadedState = initLokiLogs WindowAttached 1700000000000 (Logs [entryA, entryB]) initialState"

lemmas op_defs =
  clearLokiLogs_def toggleServiceFilter_def scrollLokiToBottom_def toggleLokiAutoScroll_def
  startLokiPolling_def stopLokiPolling_def fetchLokiLogs_send_def initLokiLogs_call_def
  initLokiLogs_resume_def loadOlderLogs_skips_def loadOlderLogs_call_def
  loadOlderLogs_resume_def loadNewerLogs_call_def loadNewerLogs_resume_def
  handleLokiScroll_def newerResponse_def refreshCall_def

fun isInitCall :: "event \<Rightarrow> bool" where
  "isInitCall (InitCall now) = True"
| "isInitCall e = False"

definition loadedModuleState :: lokiState where
  "loadedModuleState = initLokiLogs ModuleScoped 1700000000000 (Logs [entryA, entryB]) initialState"

text \<open>
  \<open>farState\<close> is the initial state after a merge of one line whose timestamp,
  \<open>2 ^ 53 + 2\<close>, lies where the Numbers are two apart.
\<close>

definition farState :: lokiState where
  "farState = snd (fetchLokiLogs_recv (Logs [entryFar]) False initialState)"

text \<open>
  \<open>staleState\<close> is \<open>loadedState\<close> after a second \<open>initLokiLogs\<close>, at 1700003000000 ms,
  whose query failed.
\<close>

definition staleState :: lokiState where
  "staleState = initLokiLogs WindowAttached 1700003000000 (FetchError ''loki unavailable'') loadedState"

text \<open>
  Further states of the window-attached composable: \<open>olderPending\<close> and \<open>newerPending\<close>
  are \<open>loadedState\<close> with an older-load, respectively a newer-load, suspended at its
  query; \<open>exhaustedState\<close> is \<open>olderPending\<close> after the empty response arrived;
  \<open>serverOnlyState\<close> is the initial state with two services deselected.
\<close>

definition olderPending :: lokiState where
  "olderPending = loadOlderLogs_call WindowAttached loadedState"

definition newerPending :: lokiState where
  "newerPending = loadNewerLogs_call WindowAttached 1700000005000 1700000005001 loadedState"

definition exhaustedState :: lokiState where
  "exhaustedState = step WindowAttached (OlderResponse (Logs [])) olderPending"

definition serverOnlyState :: lokiState where
  "serverOnlyState = run WindowAttached [Toggle ''ai'', Toggle ''base''] initialState"

section \<open>Lemmas\<close>

subsection \<open>Number arithmetic\<close>

lemma ulp_small: "n < 9007199254740992 \<Longrightarrow> ulp n = 1"
  by (simp add: ulp.simps[of n])

lemma ulp_pos: "0 < ulp n"
  by (induction n rule: ulp.induct) (simp add: ulp.simps)

lemma roundNat_exact: "n \<le> 9007199254740992 \<Longrightarrow> roundNat n = n"
proof (cases "n < 9007199254740992")
  case True
  then show ?thesis by (simp add: roundNat_def ulp_small)
next
  case False
  assume "n \<le> 9007199254740992"
  with False have n: "n = 9007199254740992" by simp
  have "ulp 9007199254740992 = 2"
    by (simp add: ulp.simps[of 9007199254740992] ulp_small)
  then show ?thesis unfolding n by (simp add: roundNat_def)
qed

lemma toNumber_exact: "\<bar>x\<bar> \<le> 9007199254740992 \<Longrightarrow> toNumber x = x"
  by (simp add: toNumber_def roundNat_exact)

lemma numSub_above_safe: "numSub 9007199254740994 1 = 9007199254740992"
proof -
  have "ulp 9007199254740993 = 2"
    by (simp add: ulp.simps[of 9007199254740993] ulp_small)
  then show ?thesis by (simp add: numSub_def toNumber_def roundNat_def)
qed

lemma numAdd_at_safe: "numAdd 9007199254740992 1 = 9007199254740992"
proof -
  have "ulp 9007199254740993 = 2"
    by (simp add: ulp.simps[of 9007199254740993] ulp_small)
  then show ?thesis by (simp add: numAdd_def toNumber_def roundNat_def)
qed

lemma numAdd_above_safe: "numAdd 9007199254740994 1 = 9007199254740996"
proof -
  have "ulp 9007199254740995 = 2"
    by (simp add: ulp.simps[of 9007199254740995] ulp_small)
  then show ?thesis by (simp add: numAdd_def toNumber_def roundNat_def)
qed

lemma numSub_hour_example: "numSub 1700000000000 3600000 = 1699996400000"
  by (simp add: numSub_def toNumber_exact)

lemma ulp_le: "0 < n \<Longrightarrow> ulp n \<le> n"
proof (induction n rule: ulp.induct)
  case (1 n)
  show ?case
  proof (cases "n < 9007199254740992")
    case True
    with "1.prems" show ?thesis by (simp add: ulp_small)
  next
    case False
    then have "0 < n div 2" by simp
    with "1.IH" False have "ulp (n div 2) \<le> n div 2" by simp
    then have "2 * ulp (n div 2) \<le> n" by simp
    with False show ?thesis by (simp add: ulp.simps[of n])
  qed
qed

lemma roundNat_zero_iff: "roundNat n = 0 \<longleftrightarrow> n = 0"
proof
  assume z: "roundNat n = 0"
  show "n = 0"
  proof (rule ccontr)
    assume "n \<noteq> 0"
    then have pos: "0 < n" by simp
    from ulp_le[OF pos] ulp_pos[of n] have "0 < n div ulp n"
      by (simp add: div_greater_zero_iff)
    with ulp_pos[of n] have "0 < (n div ulp n) * ulp n" by simp
    moreover have "(n div ulp n) * ulp n \<le> roundNat n"
      by (simp add: roundNat_def Let_def)
    ultimately show False using z by simp
  qed
next
  assume "n = 0"
  then show "roundNat n = 0" by (simp add: roundNat_exact)
qed

lemma toNumber_sign: "(toNumber x < 0 \<longleftrightarrow> x < 0) \<and> (toNumber x = 0 \<longleftrightarrow> x = 0)"
proof (cases "x < 0")
  case True
  then have "roundNat (nat (- x)) \<noteq> 0" by (simp add: roundNat_zero_iff)
  with True show ?thesis by (simp add: toNumber_def)
next
  case False
  then show ?thesis by (simp add: toNumber_def roundNat_zero_iff)
qed

lemma numSub_exact [simp]: "\<bar>a - b\<bar> \<le> 9007199254740992 \<Longrightarrow> numSub a b = a - b"
  by (simp add: numSub_def toNumber_exact)

lemma numAdd_exact [simp]: "\<bar>a + b\<bar> \<le> 9007199254740992 \<Longrightarrow> numAdd a b = a + b"
  by (simp add: numAdd_def toNumber_exact)


subsection \<open>The key determines timestamp and raw line\<close>

lemma of_char_digit: "d < 10 \<Longrightarrow> (of_char (digit_char d) :: nat) = 48 + d"
  by (simp add: digit_char_def)

lemma digit_char_inj:
  assumes "a < 10" and "b < 10" and "digit_char a = digit_char b"
  shows "a = b"
proof -
  from assms(3) have "(of_char (digit_char a) :: nat) = of_char (digit_char b)"
    by (rule arg_cong)
  then have "48 + a = 48 + b"
    by (simp only: of_char_digit[OF assms(1)] of_char_digit[OF assms(2)])
  then show ?thesis by simp
qed

lemma digit_char_not_sep: "d < 10 \<Longrightarrow> digit_char d \<noteq> CHR ''|'' \<and> digit_char d \<noteq> CHR ''-''"
  using of_char_digit[of d] by auto

lemma show_nat_nonempty: "show_nat n \<noteq> []"
  by (subst show_nat.simps) simp

lemma show_nat_chars: "c \<in> set (show_nat n) \<Longrightarrow> c \<noteq> CHR ''|'' \<and> c \<noteq> CHR ''-''"
proof (induction n rule: show_nat.induct)
  case (1 n)
  show ?case
  proof (cases "n < 10")
    case True
    with "1.prems" have "c = digit_char n" by (simp add: show_nat.simps[of n])
    then show ?thesis using digit_char_not_sep[OF True] by simp
  next
    case False
    with "1.prems" have "c \<in> set (show_nat (n div 10)) \<or> c = digit_char (n mod 10)"
      by (auto simp: show_nat.simps[of n])
    then show ?thesis
    proof
      assume "c \<in> set (show_nat (n div 10))"
      with "1.IH" False show ?thesis by blast
    next
      assume "c = digit_char (n mod 10)"
      then show ?thesis using digit_char_not_sep[of "n mod 10"] by simp
    qed
  qed
qed

lemma show_nat_inj: "show_nat a = show_nat b \<Longrightarrow> a = b"
proof (induction a arbitrary: b rule: show_nat.induct)
  case (1 n)
  show ?case
  proof (cases "n < 10")
    case True
    note nsmall = this
    show ?thesis
    proof (cases "b < 10")
      case True
      from "1.prems" nsmall True have "digit_char n = digit_char b"
        by (simp add: show_nat.simps[of n] show_nat.simps[of b])
      with nsmall True show ?thesis by (simp add: digit_char_inj)
    next
      case False
      from "1.prems" nsmall False have "[digit_char n] = show_nat (b div 10) @ [digit_char (b mod 10)]"
        by (simp add: show_nat.simps[of n] show_nat.simps[of b])
      then have "show_nat (b div 10) = []" by simp
      with show_nat_nonempty show ?thesis by blast
    qed
  next
    case False
    note nbig = this
    show ?thesis
    proof (cases "b < 10")
      case True
      from "1.prems" nbig True have "show_nat (n div 10) @ [digit_char (n mod 10)] = [digit_char b]"
        by (simp add: show_nat.simps[of n] show_nat.simps[of b])
      then have "show_nat (n div 10) = []" by simp
      with show_nat_nonempty show ?thesis by blast
    next
      case False
      from "1.prems" nbig False
      have "show_nat (n div 10) @ [digit_char (n mod 10)] = show_nat (b div 10) @ [digit_char (b mod 10)]"
        by (simp add: show_nat.simps[of n] show_nat.simps[of b])
      then have e1: "show_nat (n div 10) = show_nat (b div 10)"
        and e2: "digit_char (n mod 10) = digit_char (b mod 10)" by simp_all
      from "1.IH"[OF nbig e1] have d: "n div 10 = b div 10" .
      have m: "n mod 10 = b mod 10" by (rule digit_char_inj[OF _ _ e2]) simp_all
      from d m show ?thesis by (metis div_mult_mod_eq)
    qed
  qed
qed

lemma show_int_inj: "show_int a = show_int b \<Longrightarrow> a = b"
proof -
  assume e: "show_int a = show_int b"
  have hd_nat: "\<And>n. hd (show_nat n) \<noteq> CHR ''-''"
    using show_nat_chars show_nat_nonempty by (metis hd_in_set)
  show "a = b"
  proof (cases "a < 0")
    case True
    show ?thesis
    proof (cases "b < 0")
      case True
      with \<open>a < 0\<close> e have "show_nat (nat (- a)) = show_nat (nat (- b))" by (simp add: show_int_def)
      then have "nat (- a) = nat (- b)" by (rule show_nat_inj)
      with True \<open>a < 0\<close> show ?thesis by simp
    next
      case False
      with \<open>a < 0\<close> e have "CHR ''-'' # show_nat (nat (- a)) = show_nat (nat b)" by (simp add: show_int_def)
      then have "hd (show_nat (nat b)) = CHR ''-''" by (metis list.sel(1))
      with hd_nat show ?thesis by blast
    qed
  next
    case False
    show ?thesis
    proof (cases "b < 0")
      case True
      with \<open>\<not> a < 0\<close> e have "show_nat (nat a) = CHR ''-'' # show_nat (nat (- b))" by (simp add: show_int_def)
      then have "hd (show_nat (nat a)) = CHR ''-''" by (metis list.sel(1))
      with hd_nat show ?thesis by blast
    next
      case False
      with \<open>\<not> a < 0\<close> e have "show_nat (nat a) = show_nat (nat b)" by (simp add: show_int_def)
      then have "nat a = nat b" by (rule show_nat_inj)
      with False \<open>\<not> a < 0\<close> show ?thesis by simp
    qed
  qed
qed

lemma show_int_no_sep: "CHR ''|'' \<notin> set (show_int i)"
  using show_nat_chars by (auto simp: show_int_def)

lemma sep_split_unique:
  "c \<notin> set a \<Longrightarrow> c \<notin> set b \<Longrightarrow> a @ c # x = b @ c # y \<Longrightarrow> a = b \<and> x = y"
proof (induction a arbitrary: b)
  case Nil
  then show ?case by (cases b) auto
next
  case (Cons h t)
  then show ?case by (cases b) auto
qed

lemma entryKey_eq_iff:
  "entryKey a = entryKey b \<longleftrightarrow> timestamp a = timestamp b \<and> raw a = raw b"
proof
  assume e: "entryKey a = entryKey b"
  then have "show_int (timestamp a) @ CHR ''|'' # raw a = show_int (timestamp b) @ CHR ''|'' # raw b"
    by (simp add: entryKey_def)
  from sep_split_unique[OF show_int_no_sep show_int_no_sep this]
  have "show_int (timestamp a) = show_int (timestamp b)" and r: "raw a = raw b" by simp_all
  then show "timestamp a = timestamp b \<and> raw a = raw b" by (simp add: show_int_inj)
next
  assume "timestamp a = timestamp b \<and> raw a = raw b"
  then show "entryKey a = entryKey b" by (simp add: entryKey_def)
qed

subsection \<open>Sorted lists and the merge\<close>

lemma sorted_hd_Min_key:
  assumes "sorted (map f xs)" and "xs \<noteq> []"
  shows "f (hd xs) = Min (f ` set xs)"
proof -
  obtain x ys where xs: "xs = x # ys" using assms(2) by (cases xs) auto
  with assms(1) have le: "\<forall>y\<in>set ys. f x \<le> f y" by simp
  have "Min (f ` set xs) = f x"
  proof (rule Min_eqI)
    show "finite (f ` set xs)" by simp
    show "\<And>y. y \<in> f ` set xs \<Longrightarrow> f x \<le> y" using le xs by auto
    show "f x \<in> f ` set xs" using xs by simp
  qed
  with xs show ?thesis by simp
qed

lemma sorted_last_Max_key:
  assumes "sorted (map f xs)" and "xs \<noteq> []"
  shows "f (last xs) = Max (f ` set xs)"
proof -
  obtain ys x where xs: "xs = ys @ [x]" using assms(2) by (metis append_butlast_last_id)
  with assms(1) have le: "\<forall>y\<in>set ys. f y \<le> f x" by (simp add: sorted_append)
  have "Max (f ` set xs) = f x"
  proof (rule Max_eqI)
    show "finite (f ` set xs)" by simp
    show "\<And>y. y \<in> f ` set xs \<Longrightarrow> y \<le> f x" using le xs by auto
    show "f x \<in> f ` set xs" using xs by simp
  qed
  with xs show ?thesis by simp
qed

lemma sort_key_Nil_iff: "sort_key f xs = [] \<longleftrightarrow> xs = []"
proof -
  have "length (sort_key f xs) = length xs" by simp
  then show ?thesis by (metis length_0_conv)
qed

text \<open>The four outcomes of the part of fetchLokiLogs after the await.\<close>

lemma recv_FetchError:
  "fetchLokiLogs_recv (FetchError m) p st = (0, st\<lparr> toasts := toasts st @ [ErrorToast m] \<rparr>)"
  by (simp add: fetchLokiLogs_recv_def)

lemma recv_NoLogs: "fetchLokiLogs_recv NoLogs p st = (0, st)"
  by (simp add: fetchLokiLogs_recv_def)

lemma recv_empty:
  "fetchLokiLogs_recv (Logs []) p st = (0, if p then st\<lparr> lokiCanLoadOlder := False \<rparr> else st)"
  by (simp add: fetchLokiLogs_recv_def)

lemma recv_duplicates:
  "newLogs \<noteq> [] \<Longrightarrow> uniqueNew newLogs st = [] \<Longrightarrow> fetchLokiLogs_recv (Logs newLogs) p st = (0, st)"
  by (simp add: fetchLokiLogs_recv_def uniqueNew_def)

lemma recv_merge:
  assumes "uniqueNew newLogs st \<noteq> []"
  shows "fetchLokiLogs_recv (Logs newLogs) p st =
     (length (uniqueNew newLogs st),
      st\<lparr> lokiLogs := sort_key timestamp
              (if p then uniqueNew newLogs st @ lokiLogs st else lokiLogs st @ uniqueNew newLogs st),
          lokiEarliestMs := timestamp (hd (sort_key timestamp
              (if p then uniqueNew newLogs st @ lokiLogs st else lokiLogs st @ uniqueNew newLogs st))),
          lokiLatestMs := timestamp (last (sort_key timestamp
              (if p then uniqueNew newLogs st @ lokiLogs st else lokiLogs st @ uniqueNew newLogs st))) \<rparr>)"
  using assms unfolding fetchLokiLogs_recv_def uniqueNew_def
  by (auto simp: Let_def sort_key_Nil_iff)


lemma recv_cases:
  obtains (error) m where "r = FetchError m"
  | (nologs) "r = NoLogs"
  | (empty) "r = Logs []"
  | (dups) newLogs where "r = Logs newLogs" "newLogs \<noteq> []" "uniqueNew newLogs st = []"
  | (merge) newLogs where "r = Logs newLogs" "uniqueNew newLogs st \<noteq> []"
proof (cases r)
  case (Logs newLogs)
  then show ?thesis
    using that(3,4,5) by (cases "newLogs = []"; cases "uniqueNew newLogs st = []") auto
qed (use that in auto)

lemma recv_sorted:
  assumes "sorted (map timestamp (lokiLogs st))"
  shows "sorted (map timestamp (lokiLogs (snd (fetchLokiLogs_recv r p st))))"
proof (cases rule: recv_cases[where r=r and st=st])
  case (merge newLogs)
  then show ?thesis by (simp add: recv_merge sorted_sort_key)
qed (use assms in \<open>simp_all add: recv_FetchError recv_NoLogs recv_empty recv_duplicates\<close>)

lemma mergeAll_sorted:
  "sorted (map timestamp (lokiLogs st)) \<Longrightarrow> sorted (map timestamp (lokiLogs (mergeAll ops st)))"
proof (induction ops arbitrary: st)
  case Nil
  then show ?case by simp
next
  case (Cons op ops)
  obtain r p where op: "op = (r, p)" by (cases op)
  from Cons.prems have "sorted (map timestamp (lokiLogs (snd (fetchLokiLogs_recv r p st))))"
    by (rule recv_sorted)
  then show ?case unfolding op mergeAll.simps by (rule Cons.IH)
qed

lemma recv_keys_present:
  assumes "l \<in> set newLogs"
  shows "entryKey l \<in> set (map entryKey (lokiLogs (snd (fetchLokiLogs_recv (Logs newLogs) p st))))"
proof (cases "uniqueNew newLogs st = []")
  case True
  from assms have ne: "newLogs \<noteq> []" by auto
  from True assms have "entryKey l \<in> set (map entryKey (lokiLogs st))"
    by (auto simp: uniqueNew_def filter_empty_conv)
  then show ?thesis by (simp add: recv_duplicates[OF ne True])
next
  case False
  have "entryKey l \<in> set (map entryKey (lokiLogs st)) \<or> l \<in> set (uniqueNew newLogs st)"
    using assms by (auto simp: uniqueNew_def)
  then show ?thesis by (auto simp: recv_merge[OF False])
qed

lemma recv_again:
  "fetchLokiLogs_recv (Logs newLogs) q (snd (fetchLokiLogs_recv (Logs newLogs) p st)) =
     (0, if newLogs = [] \<and> q then (snd (fetchLokiLogs_recv (Logs newLogs) p st))\<lparr> lokiCanLoadOlder := False \<rparr>
         else snd (fetchLokiLogs_recv (Logs newLogs) p st))"
proof (cases "newLogs = []")
  case True
  then show ?thesis by (simp add: recv_empty)
next
  case False
  have "uniqueNew newLogs (snd (fetchLokiLogs_recv (Logs newLogs) p st)) = []"
    unfolding uniqueNew_def filter_empty_conv using recv_keys_present by blast
  from recv_duplicates[OF False this] False show ?thesis by simp
qed

subsection \<open>Frame of the merge, guards, and the service filter\<close>

text \<open>What the part of fetchLokiLogs after the await leaves alone.\<close>

lemma recv_frame:
  "lokiServices (snd (fetchLokiLogs_recv r p st)) = lokiServices st"
  "lokiServiceFilter (snd (fetchLokiLogs_recv r p st)) = lokiServiceFilter st"
  "lokiLoading (snd (fetchLokiLogs_recv r p st)) = lokiLoading st"
  "lokiLoadingOlder (snd (fetchLokiLogs_recv r p st)) = lokiLoadingOlder st"
  "lokiLoadingNewer (snd (fetchLokiLogs_recv r p st)) = lokiLoadingNewer st"
  "lokiAutoScroll (snd (fetchLokiLogs_recv r p st)) = lokiAutoScroll st"
  "lokiPolling (snd (fetchLokiLogs_recv r p st)) = lokiPolling st"
  "lokiPollTimer (snd (fetchLokiLogs_recv r p st)) = lokiPollTimer st"
  "fetches (snd (fetchLokiLogs_recv r p st)) = fetches st"
  "scrollsToBottom (snd (fetchLokiLogs_recv r p st)) = scrollsToBottom st"
  "initsAwaiting (snd (fetchLokiLogs_recv r p st)) = initsAwaiting st"
  "refreshAwaiting (snd (fetchLokiLogs_recv r p st)) = refreshAwaiting st"
  by (cases rule: recv_cases[where r=r and st=st];
      simp add: recv_FetchError recv_NoLogs recv_empty recv_duplicates recv_merge)+

lemma recv_canLoadOlder:
  "lokiCanLoadOlder (snd (fetchLokiLogs_recv r p st)) =
     (lokiCanLoadOlder st \<and> \<not> (p \<and> r = Logs []))"
  by (cases rule: recv_cases[where r=r and st=st])
     (auto simp add: recv_FetchError recv_NoLogs recv_empty recv_duplicates recv_merge uniqueNew_def)

lemma step_filter:
  "lokiServiceFilter (step v e st) =
     (case e of Toggle svc \<Rightarrow> lokiServiceFilter (toggleServiceFilter svc st)
      | _ \<Rightarrow> lokiServiceFilter st)"
  by (cases e) (simp_all add: op_defs recv_frame Let_def split_beta split: variant.split option.split)

lemma toggle_nonempty:
  "lokiServiceFilter st \<noteq> [] \<Longrightarrow> lokiServiceFilter (toggleServiceFilter svc st) \<noteq> []"
proof -
  assume ne: "lokiServiceFilter st \<noteq> []"
  show ?thesis
  proof (cases "svc \<in> set (lokiServiceFilter st) \<and> 1 < length (lokiServiceFilter st)")
    case True
    then have "length (remove1 svc (lokiServiceFilter st)) = length (lokiServiceFilter st) - 1"
      by (simp add: length_remove1)
    with True have "remove1 svc (lokiServiceFilter st) \<noteq> []" by auto
    with True show ?thesis by (simp add: toggleServiceFilter_def)
  next
    case False
    with ne show ?thesis by (auto simp: toggleServiceFilter_def)
  qed
qed

lemma step_filter_nonempty:
  "lokiServiceFilter st \<noteq> [] \<Longrightarrow> lokiServiceFilter (step v e st) \<noteq> []"
  by (simp add: step_filter toggle_nonempty split: event.split)

lemma run_snoc: "run v (es @ [e]) st = step v e (run v es st)"
  by (simp add: run_def)

lemma run_filter_nonempty:
  "lokiServiceFilter st \<noteq> [] \<Longrightarrow> lokiServiceFilter (run v es st) \<noteq> []"
proof (induction es rule: rev_induct)
  case Nil
  then show ?case by (simp add: run_def)
next
  case (snoc e es)
  then show ?case by (simp add: run_snoc step_filter_nonempty)
qed

lemma loadedState_eq:
  "loadedState = initialState\<lparr> lokiLogs := [entryA, entryB],
       lokiEarliestMs := 1699998000000, lokiLatestMs := 1699999000000,
       fetches := [\<lparr> start_ms = 1699996400000, end_ms = 1700000000000, limit = 50, scan = Backward \<rparr>],
       scrollsToBottom := 1 \<rparr>"
  by (simp add: loadedState_def initLokiLogs_def op_defs fetchLokiLogs_recv_def example_defs
        entryKey_eq_iff fetchLimit_def initDirection_def)

lemma older_call_in_flight: "lokiLoadingOlder st \<Longrightarrow> loadOlderLogs_call v st = st"
  by (simp add: loadOlderLogs_call_def loadOlderLogs_skips_def)

lemma newer_call_in_flight: "lokiLoadingNewer st \<Longrightarrow> loadNewerLogs_call v now1 now2 st = st"
  by (simp add: loadNewerLogs_call_def)

lemma newer_call_sets_flag: "lokiLoadingNewer (loadNewerLogs_call v now1 now2 st)"
  by (simp add: loadNewerLogs_call_def fetchLokiLogs_send_def Let_def)

lemma step_keeps_loadingOlder:
  "lokiLoadingOlder st \<Longrightarrow> \<not> isOlderResponse e \<Longrightarrow> lokiLoadingOlder (step v e st)"
  by (cases e) (simp_all add: op_defs recv_frame Let_def split_beta split: variant.split option.split)

lemma step_keeps_loadingNewer:
  "lokiLoadingNewer st \<Longrightarrow> \<not> isNewerResponse e \<Longrightarrow> lokiLoadingNewer (step v e st)"
  by (cases e) (simp_all add: op_defs recv_frame Let_def split_beta split: variant.split option.split)

lemma run_keeps_loadingOlder:
  "lokiLoadingOlder st \<Longrightarrow> \<forall>e\<in>set es. \<not> isOlderResponse e \<Longrightarrow> lokiLoadingOlder (run v es st)"
proof (induction es rule: rev_induct)
  case Nil
  then show ?case by (simp add: run_def)
next
  case (snoc e es)
  then show ?case by (simp add: run_snoc step_keeps_loadingOlder)
qed

lemma run_keeps_loadingNewer:
  "lokiLoadingNewer st \<Longrightarrow> \<forall>e\<in>set es. \<not> isNewerResponse e \<Longrightarrow> lokiLoadingNewer (run v es st)"
proof (induction es rule: rev_induct)
  case Nil
  then show ?case by (simp add: run_def)
next
  case (snoc e es)
  then show ?case by (simp add: run_snoc step_keeps_loadingNewer)
qed

lemma older_call_starts:
  "\<not> loadOlderLogs_skips st \<Longrightarrow>
     loadOlderLogs_call v st =
       st\<lparr> lokiLoadingOlder := True,
           fetches := fetches st @
             [\<lparr> start_ms = numSub (numSub (lokiEarliestMs st) 1) 3600000,
                end_ms = numSub (lokiEarliestMs st) 1,
                limit = fetchLimit v, scan = olderDirection v \<rparr>] \<rparr>"
  by (simp add: loadOlderLogs_call_def fetchLokiLogs_send_def Let_def)

lemma newer_call_starts:
  "\<not> lokiLoadingNewer st \<Longrightarrow>
     loadNewerLogs_call v now1 now2 st =
       st\<lparr> lokiLoadingNewer := True,
           fetches := fetches st @
             [\<lparr> start_ms = (if lokiLatestMs st > 0 then numAdd (lokiLatestMs st) 1
                              else numSub now1 3600000),
                end_ms = now2, limit = fetchLimit v, scan = Forward \<rparr>] \<rparr>"
  by (simp add: loadNewerLogs_call_def fetchLokiLogs_send_def)

subsection \<open>What the merge reads, and the exhaustion flag\<close>

text \<open>The merge reads the entries (and, for what it leaves, the bounds) only.\<close>

lemma recv_cong:
  assumes "lokiLogs st' = lokiLogs st"
  shows "fst (fetchLokiLogs_recv r p st') = fst (fetchLokiLogs_recv r p st)"
    and "lokiLogs (snd (fetchLokiLogs_recv r p st')) = lokiLogs (snd (fetchLokiLogs_recv r p st))"
    and "lokiEarliestMs st' = lokiEarliestMs st \<Longrightarrow>
           lokiEarliestMs (snd (fetchLokiLogs_recv r p st')) = lokiEarliestMs (snd (fetchLokiLogs_recv r p st))"
    and "lokiLatestMs st' = lokiLatestMs st \<Longrightarrow>
           lokiLatestMs (snd (fetchLokiLogs_recv r p st')) = lokiLatestMs (snd (fetchLokiLogs_recv r p st))"
  using assms by (cases r; simp add: fetchLokiLogs_recv_def Let_def)+

lemma recv_count_is_growth:
  "length (lokiLogs (snd (fetchLokiLogs_recv r p st))) = length (lokiLogs st) + fst (fetchLokiLogs_recv r p st)"
  by (cases rule: recv_cases[where r=r and st=st])
     (auto simp add: recv_FetchError recv_NoLogs recv_empty recv_duplicates recv_merge)

lemma recv_count_zero_iff:
  "fst (fetchLokiLogs_recv r p st) = 0 \<longleftrightarrow>
     (\<forall>newLogs. r = Logs newLogs \<longrightarrow> uniqueNew newLogs st = [])"
  by (cases rule: recv_cases[where r=r and st=st])
     (auto simp add: recv_FetchError recv_NoLogs recv_empty recv_duplicates recv_merge uniqueNew_def)

lemma loadedModuleState_eq:
  "loadedModuleState = initialState\<lparr> lokiLogs := [entryA, entryB],
       lokiEarliestMs := 1699998000000, lokiLatestMs := 1699999000000,
       fetches := [\<lparr> start_ms = 1699996400000, end_ms = 1700000000000, limit = 500, scan = Forward \<rparr>],
       scrollsToBottom := 1 \<rparr>"
  by (simp add: loadedModuleState_def initLokiLogs_def op_defs fetchLokiLogs_recv_def example_defs
        entryKey_eq_iff fetchLimit_def initDirection_def)

lemma older_resume_canLoadOlder:
  "lokiCanLoadOlder (loadOlderLogs_resume r st) =
     (lokiCanLoadOlder st \<and> fst (fetchLokiLogs_recv r True st) \<noteq> 0)"
proof (cases "fst (fetchLokiLogs_recv r True st) = 0")
  case True
  then show ?thesis by (simp add: loadOlderLogs_resume_def split_beta)
next
  case False
  then have "r \<noteq> Logs []" by (auto simp: recv_empty)
  with False show ?thesis
    by (simp add: loadOlderLogs_resume_def split_beta recv_canLoadOlder)
qed

lemma step_canLoadOlder:
  "lokiCanLoadOlder (step v e st) =
     (case e of
        Clear \<Rightarrow> True
      | InitCall now \<Rightarrow> True
      | OlderResponse r \<Rightarrow>
          lokiCanLoadOlder st \<and> (lokiLoadingOlder st \<longrightarrow> fst (fetchLokiLogs_recv r True st) \<noteq> 0)
      | _ \<Rightarrow> lokiCanLoadOlder st)"
proof (cases e)
  case (OlderResponse r)
  then show ?thesis by (simp add: older_resume_canLoadOlder)
qed (auto simp add: op_defs recv_frame recv_canLoadOlder Let_def split_beta
       split: variant.split option.split)

lemma older_call_exhausted: "\<not> lokiCanLoadOlder st \<Longrightarrow> loadOlderLogs_call v st = st"
  by (simp add: loadOlderLogs_call_def loadOlderLogs_skips_def)

lemma run_stays_exhausted:
  "\<not> lokiCanLoadOlder st \<Longrightarrow> \<forall>e\<in>set es. e \<noteq> Clear \<and> \<not> isInitCall e
     \<Longrightarrow> \<not> lokiCanLoadOlder (run v es st)"
proof (induction es rule: rev_induct)
  case Nil
  then show ?case by (simp add: run_def)
next
  case (snoc e es)
  then have "\<not> lokiCanLoadOlder (run v es st)" and "e \<noteq> Clear" and "\<not> isInitCall e" by simp_all
  then show ?case unfolding run_snoc by (auto simp add: step_canLoadOlder split: event.split)
qed

subsection \<open>The unsplit operations in terms of the merge\<close>

lemma staleState_eq:
  "staleState = initialState\<lparr>
       lokiEarliestMs := 1699998000000, lokiLatestMs := 1699999000000,
       fetches := [\<lparr> start_ms = 1699996400000, end_ms = 1700000000000, limit = 50, scan = Backward \<rparr>,
                   \<lparr> start_ms = 1699999400000, end_ms = 1700003000000, limit = 50, scan = Backward \<rparr>],
       toasts := [ErrorToast ''loki unavailable''],
       scrollsToBottom := 2 \<rparr>"
  by (simp add: staleState_def initLokiLogs_def op_defs recv_FetchError loadedState_eq
        initialState_def fetchLimit_def initDirection_def)

lemma older_logs:
  assumes "\<not> loadOlderLogs_skips st"
  shows "lokiLogs (loadOlderLogs v r st) = lokiLogs (snd (fetchLokiLogs_recv r True st))"
    and "lokiEarliestMs (loadOlderLogs v r st) = lokiEarliestMs (snd (fetchLokiLogs_recv r True st))"
    and "lokiLatestMs (loadOlderLogs v r st) = lokiLatestMs (snd (fetchLokiLogs_recv r True st))"
proof -
  let ?st1 = "loadOlderLogs_call v st"
  have same: "lokiLogs ?st1 = lokiLogs st" "lokiEarliestMs ?st1 = lokiEarliestMs st"
    "lokiLatestMs ?st1 = lokiLatestMs st"
    by (simp_all add: older_call_starts[OF assms])
  have res: "lokiLogs (loadOlderLogs_resume r ?st1) = lokiLogs (snd (fetchLokiLogs_recv r True ?st1))"
    "lokiEarliestMs (loadOlderLogs_resume r ?st1) = lokiEarliestMs (snd (fetchLokiLogs_recv r True ?st1))"
    "lokiLatestMs (loadOlderLogs_resume r ?st1) = lokiLatestMs (snd (fetchLokiLogs_recv r True ?st1))"
    by (simp_all add: loadOlderLogs_resume_def split_beta)
  show "lokiLogs (loadOlderLogs v r st) = lokiLogs (snd (fetchLokiLogs_recv r True st))"
    and "lokiEarliestMs (loadOlderLogs v r st) = lokiEarliestMs (snd (fetchLokiLogs_recv r True st))"
    and "lokiLatestMs (loadOlderLogs v r st) = lokiLatestMs (snd (fetchLokiLogs_recv r True st))"
    using assms res recv_cong[OF same(1)] same by (simp_all add: loadOlderLogs_def)
qed

lemma newer_result:
  assumes "\<not> lokiLoadingNewer st"
  shows "fst (loadNewerLogs v now1 now2 r st) = Some (fst (fetchLokiLogs_recv r False st))"
    and "lokiLogs (snd (loadNewerLogs v now1 now2 r st)) = lokiLogs (snd (fetchLokiLogs_recv r False st))"
    and "lokiEarliestMs (snd (loadNewerLogs v now1 now2 r st)) = lokiEarliestMs (snd (fetchLokiLogs_recv r False st))"
    and "lokiLatestMs (snd (loadNewerLogs v now1 now2 r st)) = lokiLatestMs (snd (fetchLokiLogs_recv r False st))"
    and "lokiCanLoadOlder (snd (loadNewerLogs v now1 now2 r st)) = lokiCanLoadOlder st"
proof -
  let ?st1 = "loadNewerLogs_call v now1 now2 st"
  have same: "lokiLogs ?st1 = lokiLogs st" "lokiEarliestMs ?st1 = lokiEarliestMs st"
    "lokiLatestMs ?st1 = lokiLatestMs st" "lokiCanLoadOlder ?st1 = lokiCanLoadOlder st"
    by (simp_all add: newer_call_starts[OF assms])
  have res: "fst (loadNewerLogs_resume r ?st1) = fst (fetchLokiLogs_recv r False ?st1)"
    "lokiLogs (snd (loadNewerLogs_resume r ?st1)) = lokiLogs (snd (fetchLokiLogs_recv r False ?st1))"
    "lokiEarliestMs (snd (loadNewerLogs_resume r ?st1)) = lokiEarliestMs (snd (fetchLokiLogs_recv r False ?st1))"
    "lokiLatestMs (snd (loadNewerLogs_resume r ?st1)) = lokiLatestMs (snd (fetchLokiLogs_recv r False ?st1))"
    "lokiCanLoadOlder (snd (loadNewerLogs_resume r ?st1)) = lokiCanLoadOlder (snd (fetchLokiLogs_recv r False ?st1))"
    by (simp_all add: loadNewerLogs_resume_def split_beta scrollLokiToBottom_def)
  show "fst (loadNewerLogs v now1 now2 r st) = Some (fst (fetchLokiLogs_recv r False st))"
    and "lokiLogs (snd (loadNewerLogs v now1 now2 r st)) = lokiLogs (snd (fetchLokiLogs_recv r False st))"
    and "lokiEarliestMs (snd (loadNewerLogs v now1 now2 r st)) = lokiEarliestMs (snd (fetchLokiLogs_recv r False st))"
    and "lokiLatestMs (snd (loadNewerLogs v now1 now2 r st)) = lokiLatestMs (snd (fetchLokiLogs_recv r False st))"
    and "lokiCanLoadOlder (snd (loadNewerLogs v now1 now2 r st)) = lokiCanLoadOlder st"
    using assms res recv_cong[OF same(1)] same
    by (simp_all add: loadNewerLogs_def split_beta recv_canLoadOlder)
qed

lemma init_result:
  "lokiLogs (initLokiLogs v now r st) = lokiLogs (snd (fetchLokiLogs_recv r False (st\<lparr> lokiLogs := [] \<rparr>)))"
  "lokiEarliestMs (initLokiLogs v now r st) = lokiEarliestMs (snd (fetchLokiLogs_recv r False (st\<lparr> lokiLogs := [] \<rparr>)))"
  "lokiLatestMs (initLokiLogs v now r st) = lokiLatestMs (snd (fetchLokiLogs_recv r False (st\<lparr> lokiLogs := [] \<rparr>)))"
  "lokiCanLoadOlder (initLokiLogs v now r st)"
proof -
  let ?st1 = "initLokiLogs_call v now st"
  have same: "lokiLogs ?st1 = lokiLogs (st\<lparr> lokiLogs := [] \<rparr>)"
    "lokiEarliestMs ?st1 = lokiEarliestMs (st\<lparr> lokiLogs := [] \<rparr>)"
    "lokiLatestMs ?st1 = lokiLatestMs (st\<lparr> lokiLogs := [] \<rparr>)"
    "lokiCanLoadOlder ?st1"
    by (simp_all add: initLokiLogs_call_def fetchLokiLogs_send_def Let_def)
  show "lokiLogs (initLokiLogs v now r st) = lokiLogs (snd (fetchLokiLogs_recv r False (st\<lparr> lokiLogs := [] \<rparr>)))"
    "lokiEarliestMs (initLokiLogs v now r st) = lokiEarliestMs (snd (fetchLokiLogs_recv r False (st\<lparr> lokiLogs := [] \<rparr>)))"
    "lokiLatestMs (initLokiLogs v now r st) = lokiLatestMs (snd (fetchLokiLogs_recv r False (st\<lparr> lokiLogs := [] \<rparr>)))"
    "lokiCanLoadOlder (initLokiLogs v now r st)"
    using recv_cong[OF same(1)] same
    by (simp_all add: initLokiLogs_def initLokiLogs_resume_def scrollLokiToBottom_def Let_def
          recv_canLoadOlder)
qed

lemma farState_eq:
  "farState = initialState\<lparr> lokiLogs := [entryFar],
       lokiEarliestMs := 9007199254740994, lokiLatestMs := 9007199254740994 \<rparr>"
  by (simp add: farState_def fetchLokiLogs_recv_def initialState_def entryFar_def)

lemma init_call_starts:
  "initLokiLogs_call v now st =
     st\<lparr> lokiLoading := True, lokiLogs := [], lokiCanLoadOlder := True,
         fetches := fetches st @
           [\<lparr> start_ms = numSub now 3600000, end_ms = now, limit = fetchLimit v,
              scan = initDirection v \<rparr>],
         initsAwaiting := Suc (initsAwaiting st) \<rparr>"
  by (simp add: initLokiLogs_call_def fetchLokiLogs_send_def Let_def)

subsection \<open>The example states, evaluated\<close>

lemma olderPending_eq:
  "olderPending = initialState\<lparr> lokiLogs := [entryA, entryB],
       lokiLoadingOlder := True,
       lokiEarliestMs := 1699998000000, lokiLatestMs := 1699999000000,
       fetches := [\<lparr> start_ms = 1699996400000, end_ms = 1700000000000, limit = 50, scan = Backward \<rparr>,
                   \<lparr> start_ms = 1699994399999, end_ms = 1699997999999, limit = 50, scan = Backward \<rparr>],
       scrollsToBottom := 1 \<rparr>"
  by (simp add: olderPending_def loadOlderLogs_call_def loadOlderLogs_skips_def fetchLokiLogs_send_def
        loadedState_eq initialState_def fetchLimit_def olderDirection_def)

lemma newerPending_eq:
  "newerPending = initialState\<lparr> lokiLogs := [entryA, entryB],
       lokiLoadingNewer := True,
       lokiEarliestMs := 1699998000000, lokiLatestMs := 1699999000000,
       fetches := [\<lparr> start_ms = 1699996400000, end_ms = 1700000000000, limit = 50, scan = Backward \<rparr>,
                   \<lparr> start_ms = 1699999000001, end_ms = 1700000005001, limit = 50, scan = Forward \<rparr>],
       scrollsToBottom := 1 \<rparr>"
  by (simp add: newerPending_def loadNewerLogs_call_def fetchLokiLogs_send_def
        loadedState_eq initialState_def fetchLimit_def)

lemma exhaustedState_eq:
  "exhaustedState = initialState\<lparr> lokiLogs := [entryA, entryB],
       lokiCanLoadOlder := False,
       lokiEarliestMs := 1699998000000, lokiLatestMs := 1699999000000,
       fetches := [\<lparr> start_ms = 1699996400000, end_ms = 1700000000000, limit = 50, scan = Backward \<rparr>,
                   \<lparr> start_ms = 1699994399999, end_ms = 1699997999999, limit = 50, scan = Backward \<rparr>],
       scrollsToBottom := 1 \<rparr>"
  by (simp add: exhaustedState_def olderPending_eq loadOlderLogs_resume_def recv_empty initialState_def)

lemma serverOnlyState_eq:
  "serverOnlyState = initialState\<lparr> lokiServiceFilter := [''server''] \<rparr>"
  by (simp add: serverOnlyState_def run_def toggleServiceFilter_def initialState_def)

section \<open>Properties stated by the specification\<close>

text \<open>
  C1, as the code has it. A query that fails makes \<open>fetchLokiLogs\<close> return 0 with the
  state as it was but for one error toast, so the rest of each operation, run when the
  failure arrives, applies no merge: \<open>loadNewerLogs\<close> returns 0 and leaves entries,
  bounds and \<open>lokiCanLoadOlder\<close> as they were, \<open>loadOlderLogs\<close> leaves entries and bounds
  as they were, \<open>initLokiLogs\<close> leaves all four as they were when it sent its query.
  Run without interruption, \<open>loadNewerLogs\<close> and \<open>loadOlderLogs\<close> leave these values as
  before the call, and \<open>initLokiLogs\<close> ends with the empty entry list and the true
  \<open>lokiCanLoadOlder\<close> that it set before sending the query.
\<close>

theorem C1_failed_fetch_merges_nothing:
  "fetchLokiLogs_recv (FetchError m) p st = (0, st\<lparr> toasts := toasts st @ [ErrorToast m] \<rparr>)
   \<and> fst (loadNewerLogs_resume (FetchError m) st) = 0
   \<and> lokiLogs (snd (loadNewerLogs_resume (FetchError m) st)) = lokiLogs st
   \<and> lokiEarliestMs (snd (loadNewerLogs_resume (FetchError m) st)) = lokiEarliestMs st
   \<and> lokiLatestMs (snd (loadNewerLogs_resume (FetchError m) st)) = lokiLatestMs st
   \<and> lokiCanLoadOlder (snd (loadNewerLogs_resume (FetchError m) st)) = lokiCanLoadOlder st
   \<and> lokiLogs (loadOlderLogs_resume (FetchError m) st) = lokiLogs st
   \<and> lokiEarliestMs (loadOlderLogs_resume (FetchError m) st) = lokiEarliestMs st
   \<and> lokiLatestMs (loadOlderLogs_resume (FetchError m) st) = lokiLatestMs st
   \<and> lokiLogs (initLokiLogs_resume (FetchError m) st) = lokiLogs st
   \<and> lokiEarliestMs (initLokiLogs_resume (FetchError m) st) = lokiEarliestMs st
   \<and> lokiLatestMs (initLokiLogs_resume (FetchError m) st) = lokiLatestMs st
   \<and> lokiCanLoadOlder (initLokiLogs_resume (FetchError m) st) = lokiCanLoadOlder st
   \<and> (\<not> lokiLoadingNewer st \<longrightarrow> fst (loadNewerLogs v now1 now2 (FetchError m) st) = Some 0)
   \<and> lokiLogs (snd (loadNewerLogs v now1 now2 (FetchError m) st)) = lokiLogs st
   \<and> lokiEarliestMs (snd (loadNewerLogs v now1 now2 (FetchError m) st)) = lokiEarliestMs st
   \<and> lokiLatestMs (snd (loadNewerLogs v now1 now2 (FetchError m) st)) = lokiLatestMs st
   \<and> lokiCanLoadOlder (snd (loadNewerLogs v now1 now2 (FetchError m) st)) = lokiCanLoadOlder st
   \<and> lokiLogs (loadOlderLogs v (FetchError m) st) = lokiLogs st
   \<and> lokiEarliestMs (loadOlderLogs v (FetchError m) st) = lokiEarliestMs st
   \<and> lokiLatestMs (loadOlderLogs v (FetchError m) st) = lokiLatestMs st
   \<and> lokiLogs (initLokiLogs v now (FetchError m) st) = []
   \<and> lokiCanLoadOlder (initLokiLogs v now (FetchError m) st)
   \<and> lokiEarliestMs (initLokiLogs v now (FetchError m) st)
       = lokiEarliestMs (initLokiLogs_call v now st)
   \<and> lokiLatestMs (initLokiLogs v now (FetchError m) st)
       = lokiLatestMs (initLokiLogs_call v now st)"
proof -
  have resumes: "fst (loadNewerLogs_resume (FetchError m) st) = 0
   \<and> lokiLogs (snd (loadNewerLogs_resume (FetchError m) st)) = lokiLogs st
   \<and> lokiEarliestMs (snd (loadNewerLogs_resume (FetchError m) st)) = lokiEarliestMs st
   \<and> lokiLatestMs (snd (loadNewerLogs_resume (FetchError m) st)) = lokiLatestMs st
   \<and> lokiCanLoadOlder (snd (loadNewerLogs_resume (FetchError m) st)) = lokiCanLoadOlder st
   \<and> lokiLogs (loadOlderLogs_resume (FetchError m) st) = lokiLogs st
   \<and> lokiEarliestMs (loadOlderLogs_resume (FetchError m) st) = lokiEarliestMs st
   \<and> lokiLatestMs (loadOlderLogs_resume (FetchError m) st) = lokiLatestMs st
   \<and> lokiLogs (initLokiLogs_resume (FetchError m) st) = lokiLogs st
   \<and> lokiEarliestMs (initLokiLogs_resume (FetchError m) st) = lokiEarliestMs st
   \<and> lokiLatestMs (initLokiLogs_resume (FetchError m) st) = lokiLatestMs st
   \<and> lokiCanLoadOlder (initLokiLogs_resume (FetchError m) st) = lokiCanLoadOlder st"
    by (simp add: loadNewerLogs_resume_def loadOlderLogs_resume_def initLokiLogs_resume_def
          scrollLokiToBottom_def recv_FetchError)
  have newer: "(\<not> lokiLoadingNewer st \<longrightarrow> fst (loadNewerLogs v now1 now2 (FetchError m) st) = Some 0)
   \<and> lokiLogs (snd (loadNewerLogs v now1 now2 (FetchError m) st)) = lokiLogs st
   \<and> lokiEarliestMs (snd (loadNewerLogs v now1 now2 (FetchError m) st)) = lokiEarliestMs st
   \<and> lokiLatestMs (snd (loadNewerLogs v now1 now2 (FetchError m) st)) = lokiLatestMs st
   \<and> lokiCanLoadOlder (snd (loadNewerLogs v now1 now2 (FetchError m) st)) = lokiCanLoadOlder st"
  proof (cases "lokiLoadingNewer st")
    case True
    then show ?thesis by (simp add: loadNewerLogs_def)
  next
    case False
    then show ?thesis by (simp add: newer_result[OF False] recv_FetchError)
  qed
  have older: "lokiLogs (loadOlderLogs v (FetchError m) st) = lokiLogs st
   \<and> lokiEarliestMs (loadOlderLogs v (FetchError m) st) = lokiEarliestMs st
   \<and> lokiLatestMs (loadOlderLogs v (FetchError m) st) = lokiLatestMs st"
  proof (cases "loadOlderLogs_skips st")
    case True
    then show ?thesis by (simp add: loadOlderLogs_def)
  next
    case False
    then show ?thesis by (simp add: older_logs[OF False] recv_FetchError)
  qed
  have init: "lokiLogs (initLokiLogs v now (FetchError m) st) = []
   \<and> lokiCanLoadOlder (initLokiLogs v now (FetchError m) st)
   \<and> lokiEarliestMs (initLokiLogs v now (FetchError m) st)
       = lokiEarliestMs (initLokiLogs_call v now st)
   \<and> lokiLatestMs (initLokiLogs v now (FetchError m) st)
       = lokiLatestMs (initLokiLogs_call v now st)"
    by (simp add: init_result recv_FetchError init_call_starts)
  from resumes newer older init show ?thesis by (simp add: recv_FetchError)
qed

theorem C1_failed_fetch_merges_nothing_witness:
  "\<not> lokiLoadingNewer loadedState
   \<and> fst (loadNewerLogs WindowAttached 1700000005000 1700000005001
            (FetchError ''loki unavailable'') loadedState) = Some 0
   \<and> lokiLogs (snd (loadNewerLogs WindowAttached 1700000005000 1700000005001
            (FetchError ''loki unavailable'') loadedState)) = [entryA, entryB]"
proof -
  have pre: "\<not> lokiLoadingNewer loadedState" "lokiLogs loadedState = [entryA, entryB]"
    by (simp_all add: loadedState_eq initialState_def)
  from C1_failed_fetch_merges_nothing
         [where st = loadedState and v = WindowAttached and ?now1.0 = 1700000005000
            and ?now2.0 = 1700000005001 and m = "''loki unavailable''"]
  have "\<not> lokiLoadingNewer loadedState \<longrightarrow>
          fst (loadNewerLogs WindowAttached 1700000005000 1700000005001
                 (FetchError ''loki unavailable'') loadedState) = Some 0"
    and "lokiLogs (snd (loadNewerLogs WindowAttached 1700000005000 1700000005001
            (FetchError ''loki unavailable'') loadedState)) = lokiLogs loadedState"
    by simp_all
  with pre show ?thesis by simp
qed

text \<open>
  The claim as written fails twice on the loaded window: after \<open>initLokiLogs\<close> with a
  failed query the two entries are gone, and after \<open>loadOlderLogs\<close> with a failed query
  \<open>lokiCanLoadOlder\<close> is false.
\<close>

theorem C1_failed_fetch_changes_the_window:
  "lokiLogs loadedState = [entryA, entryB]
   \<and> lokiLogs (initLokiLogs WindowAttached 1700003000000 (FetchError ''loki unavailable'') loadedState)
       = []
   \<and> lokiCanLoadOlder loadedState
   \<and> \<not> lokiCanLoadOlder (loadOlderLogs WindowAttached (FetchError ''loki unavailable'') loadedState)"
  by (simp add: init_result recv_FetchError loadOlderLogs_def loadOlderLogs_skips_def
        older_resume_canLoadOlder older_call_starts loadedState_eq initialState_def)

text \<open>
  C2, as the code has it. \<open>lokiCanLoadOlder\<close> goes from true to false only when the
  response of a suspended \<open>loadOlderLogs\<close> arrives and the merge reports zero added
  entries; it does so in particular when the response is an empty list. While it is
  false, \<open>loadOlderLogs\<close> returns at its guard with the state unchanged (no query is
  sent); only \<open>clearLokiLogs\<close> and \<open>initLokiLogs\<close> set it to true again, and both always do.
\<close>

theorem C2_canLoadOlder_falls_only_on_zero_count:
  "(lokiCanLoadOlder st \<and> \<not> lokiCanLoadOlder (step v e st) \<longrightarrow>
      (\<exists>r. e = OlderResponse r \<and> lokiLoadingOlder st \<and> fst (fetchLokiLogs_recv r True st) = 0))
   \<and> (lokiLoadingOlder st \<longrightarrow> \<not> lokiCanLoadOlder (step v (OlderResponse (Logs [])) st))
   \<and> (\<not> lokiCanLoadOlder st \<longrightarrow> loadOlderLogs_call v st = st)
   \<and> (\<not> lokiCanLoadOlder st \<and> lokiCanLoadOlder (step v e st) \<longrightarrow> e = Clear \<or> isInitCall e)
   \<and> (\<not> lokiCanLoadOlder st \<and> (\<forall>e\<in>set es. e \<noteq> Clear \<and> \<not> isInitCall e) \<longrightarrow>
        \<not> lokiCanLoadOlder (run v es st)
        \<and> step v OlderCall (run v es st) = run v es st)
   \<and> lokiCanLoadOlder (clearLokiLogs st)
   \<and> lokiCanLoadOlder (initLokiLogs_call v now st)"
proof -
  have a: "lokiCanLoadOlder st \<and> \<not> lokiCanLoadOlder (step v e st) \<longrightarrow>
      (\<exists>r. e = OlderResponse r \<and> lokiLoadingOlder st \<and> fst (fetchLokiLogs_recv r True st) = 0)"
    by (auto simp add: step_canLoadOlder split: event.splits)
  have b: "lokiLoadingOlder st \<longrightarrow> \<not> lokiCanLoadOlder (step v (OlderResponse (Logs [])) st)"
    by (simp add: older_resume_canLoadOlder recv_empty)
  have c: "\<not> lokiCanLoadOlder st \<longrightarrow> loadOlderLogs_call v st = st"
    by (simp add: older_call_exhausted)
  have d: "\<not> lokiCanLoadOlder st \<and> lokiCanLoadOlder (step v e st) \<longrightarrow> e = Clear \<or> isInitCall e"
    by (auto simp add: step_canLoadOlder split: event.splits)
  have e: "\<not> lokiCanLoadOlder st \<and> (\<forall>e\<in>set es. e \<noteq> Clear \<and> \<not> isInitCall e) \<longrightarrow>
        \<not> lokiCanLoadOlder (run v es st)
        \<and> step v OlderCall (run v es st) = run v es st"
    using run_stays_exhausted[of st es v] by (auto simp add: older_call_exhausted)
  have f: "lokiCanLoadOlder (clearLokiLogs st) \<and> lokiCanLoadOlder (initLokiLogs_call v now st)"
    by (simp add: op_defs Let_def)
  from a b c d e f show ?thesis by blast
qed

theorem C2_canLoadOlder_falls_only_on_zero_count_witness:
  "lokiCanLoadOlder olderPending \<and> lokiLoadingOlder olderPending
   \<and> \<not> lokiCanLoadOlder exhaustedState
   \<and> fst (fetchLokiLogs_recv (Logs []) True olderPending) = 0
   \<and> loadOlderLogs_call WindowAttached exhaustedState = exhaustedState
   \<and> \<not> lokiCanLoadOlder
        (run WindowAttached [NewerCall 1700000005000 1700000005001, OlderCall, Toggle ''ai'']
           exhaustedState)
   \<and> step WindowAttached OlderCall
        (run WindowAttached [NewerCall 1700000005000 1700000005001, OlderCall, Toggle ''ai'']
           exhaustedState)
      = run WindowAttached [NewerCall 1700000005000 1700000005001, OlderCall, Toggle ''ai'']
           exhaustedState
   \<and> lokiCanLoadOlder (step WindowAttached Clear exhaustedState)
   \<and> lokiCanLoadOlder (step WindowAttached (InitCall 1700003000000) exhaustedState)"
proof -
  let ?es = "[NewerCall 1700000005000 1700000005001, OlderCall, Toggle ''ai'']"
  have can: "lokiCanLoadOlder olderPending" and flag: "lokiLoadingOlder olderPending"
    by (simp_all add: olderPending_eq initialState_def)
  have quiet: "\<forall>e\<in>set ?es. e \<noteq> Clear \<and> \<not> isInitCall e" by simp
  note first = C2_canLoadOlder_falls_only_on_zero_count
                 [where st = olderPending and v = WindowAttached and e = "OlderResponse (Logs [])"]
  note later = C2_canLoadOlder_falls_only_on_zero_count
                 [where st = exhaustedState and v = WindowAttached and es = ?es and e = Clear
                    and now = 1700003000000]
  from first flag have off: "\<not> lokiCanLoadOlder exhaustedState"
    unfolding exhaustedState_def by blast
  from first can off
  have "\<exists>r. OlderResponse (Logs []) = OlderResponse r
            \<and> lokiLoadingOlder olderPending \<and> fst (fetchLokiLogs_recv r True olderPending) = 0"
    unfolding exhaustedState_def by blast
  then have zero: "fst (fetchLokiLogs_recv (Logs []) True olderPending) = 0" by auto
  from later off have stay: "loadOlderLogs_call WindowAttached exhaustedState = exhaustedState"
    by blast
  from later off quiet
  have run: "\<not> lokiCanLoadOlder (run WindowAttached ?es exhaustedState)
      \<and> step WindowAttached OlderCall (run WindowAttached ?es exhaustedState)
          = run WindowAttached ?es exhaustedState"
    by blast
  from later have reset: "lokiCanLoadOlder (clearLokiLogs exhaustedState)
      \<and> lokiCanLoadOlder (initLokiLogs_call WindowAttached 1700003000000 exhaustedState)"
    by blast
  from can flag off zero stay run reset show ?thesis by simp
qed

text \<open>
  The claim as written fails: on the loaded window a failed query, a response without
  a log list and a response holding only a line already present each end
  \<open>loadOlderLogs\<close> with \<open>lokiCanLoadOlder\<close> false, though none is an empty log list.
\<close>

theorem C2_canLoadOlder_falls_without_empty_list:
  "lokiCanLoadOlder loadedState
   \<and> \<not> lokiCanLoadOlder (loadOlderLogs WindowAttached (FetchError ''loki unavailable'') loadedState)
   \<and> \<not> lokiCanLoadOlder (loadOlderLogs WindowAttached NoLogs loadedState)
   \<and> \<not> lokiCanLoadOlder (loadOlderLogs WindowAttached (Logs [entryA]) loadedState)"
  by (simp add: loadOlderLogs_def loadOlderLogs_skips_def older_resume_canLoadOlder
        recv_FetchError recv_NoLogs older_call_starts loadedState_eq initialState_def
        fetchLokiLogs_recv_def entryKey_eq_iff)

text \<open>
  C3, as the code has it. When \<open>loadOlderLogs\<close> passes its guard it sets its flag and
  sends one query whose end is \<open>lokiEarliestMs - 1\<close> and whose start is that end minus
  3600000, both computed in the Numbers of the source: backward with limit 50 in the
  window-attached copy, forward with limit 500 in the module. While \<open>lokiEarliestMs\<close>
  is at most \<open>2 ^ 53 - 3600001\<close> in magnitude the two differences are exact. The response
  is merged with \<open>prepend\<close> true: the new lines are put in front of the entries and the
  whole list is sorted.
\<close>

theorem C3_loadOlder_query_and_prepend_merge:
  assumes "\<not> lokiLoadingOlder st" and "lokiCanLoadOlder st" and "lokiLogs st \<noteq> []"
  shows "loadOlderLogs_call v st =
           st\<lparr> lokiLoadingOlder := True,
               fetches := fetches st @
                 [\<lparr> start_ms = numSub (numSub (lokiEarliestMs st) 1) 3600000,
                    end_ms = numSub (lokiEarliestMs st) 1,
                    limit = (case v of WindowAttached \<Rightarrow> 50 | ModuleScoped \<Rightarrow> 500),
                    scan = (case v of WindowAttached \<Rightarrow> Backward | ModuleScoped \<Rightarrow> Forward) \<rparr>] \<rparr>
    \<and> (\<bar>lokiEarliestMs st\<bar> \<le> 9007199251140991 \<longrightarrow>
          numSub (lokiEarliestMs st) 1 = lokiEarliestMs st - 1
          \<and> numSub (numSub (lokiEarliestMs st) 1) 3600000 = (lokiEarliestMs st - 1) - 3600000)
    \<and> lokiLogs (loadOlderLogs v result st) = lokiLogs (snd (fetchLokiLogs_recv result True st))
    \<and> (uniqueNew newLogs st \<noteq> [] \<longrightarrow>
          lokiLogs (loadOlderLogs v (Logs newLogs) st)
            = sort_key timestamp (uniqueNew newLogs st @ lokiLogs st))"
proof -
  from assms have go: "\<not> loadOlderLogs_skips st" by (simp add: loadOlderLogs_skips_def)
  have query: "loadOlderLogs_call v st =
           st\<lparr> lokiLoadingOlder := True,
               fetches := fetches st @
                 [\<lparr> start_ms = numSub (numSub (lokiEarliestMs st) 1) 3600000,
                    end_ms = numSub (lokiEarliestMs st) 1,
                    limit = (case v of WindowAttached \<Rightarrow> 50 | ModuleScoped \<Rightarrow> 500),
                    scan = (case v of WindowAttached \<Rightarrow> Backward | ModuleScoped \<Rightarrow> Forward) \<rparr>] \<rparr>"
    by (simp add: older_call_starts[OF go] fetchLimit_def olderDirection_def)
  have exact: "\<bar>lokiEarliestMs st\<bar> \<le> 9007199251140991 \<longrightarrow>
          numSub (lokiEarliestMs st) 1 = lokiEarliestMs st - 1
          \<and> numSub (numSub (lokiEarliestMs st) 1) 3600000 = (lokiEarliestMs st - 1) - 3600000"
  proof
    assume b: "\<bar>lokiEarliestMs st\<bar> \<le> 9007199251140991"
    then have e1: "numSub (lokiEarliestMs st) 1 = lokiEarliestMs st - 1"
      by (intro numSub_exact) arith
    from b have "numSub (lokiEarliestMs st - 1) 3600000 = (lokiEarliestMs st - 1) - 3600000"
      by (intro numSub_exact) arith
    with e1 show "numSub (lokiEarliestMs st) 1 = lokiEarliestMs st - 1
          \<and> numSub (numSub (lokiEarliestMs st) 1) 3600000 = (lokiEarliestMs st - 1) - 3600000"
      by (simp only: simp_thms)
  qed
  have merge: "uniqueNew newLogs st \<noteq> [] \<longrightarrow>
          lokiLogs (loadOlderLogs v (Logs newLogs) st)
            = sort_key timestamp (uniqueNew newLogs st @ lokiLogs st)"
    by (simp add: older_logs(1)[OF go] recv_merge)
  from query exact merge older_logs(1)[OF go, of v result] show ?thesis
    by (simp only: simp_thms)
qed

theorem C3_loadOlder_query_and_prepend_merge_witness:
  "\<not> lokiLoadingOlder loadedState \<and> lokiCanLoadOlder loadedState \<and> lokiLogs loadedState \<noteq> []
   \<and> \<bar>lokiEarliestMs loadedState\<bar> \<le> 9007199251140991
   \<and> fetches (loadOlderLogs_call WindowAttached loadedState) =
       [\<lparr> start_ms = 1699996400000, end_ms = 1700000000000, limit = 50, scan = Backward \<rparr>,
        \<lparr> start_ms = 1699994399999, end_ms = 1699997999999, limit = 50, scan = Backward \<rparr>]
   \<and> uniqueNew [entryC, entryA] loadedState = [entryC]
   \<and> lokiLogs (loadOlderLogs WindowAttached (Logs [entryC, entryA]) loadedState)
       = [entryC, entryA, entryB]"
proof -
  have pre: "\<not> lokiLoadingOlder loadedState" "lokiCanLoadOlder loadedState" "lokiLogs loadedState \<noteq> []"
    by (simp_all add: loadedState_eq initialState_def)
  have new: "uniqueNew [entryC, entryA] loadedState = [entryC]"
    by (simp add: uniqueNew_def loadedState_eq example_defs entryKey_eq_iff)
  have old: "fetches loadedState =
       [\<lparr> start_ms = 1699996400000, end_ms = 1700000000000, limit = 50, scan = Backward \<rparr>]"
    "lokiEarliestMs loadedState = 1699998000000" "lokiLogs loadedState = [entryA, entryB]"
    by (simp_all add: loadedState_eq initialState_def)
  have small: "\<bar>lokiEarliestMs loadedState\<bar> \<le> 9007199251140991"
    by (simp add: old)
  have sorted: "sort_key timestamp ([entryC] @ [entryA, entryB]) = [entryC, entryA, entryB]"
    by (simp add: example_defs)
  note inst = C3_loadOlder_query_and_prepend_merge
         [OF pre, where v = WindowAttached and newLogs = "[entryC, entryA]"
            and result = "Logs [entryC, entryA]"]
  from inst have q: "loadOlderLogs_call WindowAttached loadedState =
           loadedState\<lparr> lokiLoadingOlder := True,
               fetches := fetches loadedState @
                 [\<lparr> start_ms = numSub (numSub (lokiEarliestMs loadedState) 1) 3600000,
                    end_ms = numSub (lokiEarliestMs loadedState) 1,
                    limit = 50, scan = Backward \<rparr>] \<rparr>"
    by simp
  from inst small have x: "numSub (lokiEarliestMs loadedState) 1 = lokiEarliestMs loadedState - 1
      \<and> numSub (numSub (lokiEarliestMs loadedState) 1) 3600000
          = (lokiEarliestMs loadedState - 1) - 3600000"
    by blast
  from inst have m: "uniqueNew [entryC, entryA] loadedState \<noteq> [] \<longrightarrow>
          lokiLogs (loadOlderLogs WindowAttached (Logs [entryC, entryA]) loadedState)
            = sort_key timestamp (uniqueNew [entryC, entryA] loadedState @ lokiLogs loadedState)"
    by (rule conjunct2[THEN conjunct2, THEN conjunct2])
  have "fetches (loadOlderLogs_call WindowAttached loadedState) =
       [\<lparr> start_ms = 1699996400000, end_ms = 1700000000000, limit = 50, scan = Backward \<rparr>,
        \<lparr> start_ms = 1699994399999, end_ms = 1699997999999, limit = 50, scan = Backward \<rparr>]"
    unfolding q using x old by simp
  moreover have "lokiLogs (loadOlderLogs WindowAttached (Logs [entryC, entryA]) loadedState)
       = [entryC, entryA, entryB]"
    using m new old sorted by simp
  ultimately show ?thesis using pre new small by simp
qed

text \<open>
  The claim as written fails in two places. The module copy scans forward. And where the
  Numbers are two apart the end of the range is not \<open>lokiEarliestMs - 1\<close>: on
  \<open>farState\<close>, whose \<open>lokiEarliestMs\<close> is \<open>2 ^ 53 + 2\<close>, the query of the window-attached
  copy ends at \<open>2 ^ 53\<close>.
\<close>

theorem C3_forward_scan_and_rounded_range:
  "\<not> lokiLoadingOlder loadedModuleState \<and> lokiCanLoadOlder loadedModuleState
   \<and> lokiLogs loadedModuleState \<noteq> []
   \<and> fetches (loadOlderLogs_call ModuleScoped loadedModuleState) =
       [\<lparr> start_ms = 1699996400000, end_ms = 1700000000000, limit = 500, scan = Forward \<rparr>,
        \<lparr> start_ms = 1699994399999, end_ms = 1699997999999, limit = 500, scan = Forward \<rparr>]
   \<and> scan (last (fetches (loadOlderLogs_call ModuleScoped loadedModuleState))) \<noteq> Backward
   \<and> \<not> lokiLoadingOlder farState \<and> lokiCanLoadOlder farState \<and> lokiLogs farState \<noteq> []
   \<and> lokiEarliestMs farState = 9007199254740994
   \<and> fetches (loadOlderLogs_call WindowAttached farState) =
       [\<lparr> start_ms = 9007199251140992, end_ms = 9007199254740992, limit = 50, scan = Backward \<rparr>]
   \<and> end_ms (last (fetches (loadOlderLogs_call WindowAttached farState)))
       \<noteq> lokiEarliestMs farState - 1"
proof -
  have far: "\<not> loadOlderLogs_skips farState"
    by (simp add: loadOlderLogs_skips_def farState_eq initialState_def)
  have "loadOlderLogs_call WindowAttached farState =
       farState\<lparr> lokiLoadingOlder := True,
           fetches := [\<lparr> start_ms = 9007199251140992, end_ms = 9007199254740992,
                          limit = 50, scan = Backward \<rparr>] \<rparr>"
    by (simp add: older_call_starts[OF far] fetchLimit_def olderDirection_def)
       (simp add: farState_eq initialState_def numSub_above_safe)
  then show ?thesis
    by (simp add: loadOlderLogs_call_def loadOlderLogs_skips_def fetchLokiLogs_send_def
          loadedModuleState_eq initialState_def fetchLimit_def olderDirection_def)
       (simp add: farState_eq initialState_def)
qed

text \<open>
  C4 (\<open>initLokiLogs\<close> clears the store, both bounds included, before it fetches the
  last hour) does not hold of the code. On a window loaded before, \<open>initLokiLogs\<close> whose
  query returns an empty list ends with no entries and with both bounds still at the
  timestamps of the lines it dropped; \<open>clearLokiLogs\<close> on the same window sets both
  bounds to 0.
\<close>

theorem C4_initLokiLogs_keeps_the_old_bounds:
  "lokiEarliestMs loadedState = 1699998000000 \<and> lokiLatestMs loadedState = 1699999000000
   \<and> lokiLogs (initLokiLogs WindowAttached 1700003000000 (Logs []) loadedState) = []
   \<and> lokiCanLoadOlder (initLokiLogs WindowAttached 1700003000000 (Logs []) loadedState)
   \<and> lokiEarliestMs (initLokiLogs WindowAttached 1700003000000 (Logs []) loadedState) = 1699998000000
   \<and> lokiLatestMs (initLokiLogs WindowAttached 1700003000000 (Logs []) loadedState) = 1699999000000
   \<and> lokiLogs (initLokiLogs ModuleScoped 1700003000000 (Logs []) loadedModuleState) = []
   \<and> lokiEarliestMs (initLokiLogs ModuleScoped 1700003000000 (Logs []) loadedModuleState) = 1699998000000
   \<and> lokiLatestMs (initLokiLogs ModuleScoped 1700003000000 (Logs []) loadedModuleState) = 1699999000000
   \<and> lokiEarliestMs (clearLokiLogs loadedState) = 0 \<and> lokiLatestMs (clearLokiLogs loadedState) = 0"
  by (simp add: init_result recv_empty clearLokiLogs_def loadedState_eq loadedModuleState_eq
        initialState_def)

text \<open>
  C5. Whatever responses are merged one after the other, each with prepend or append,
  the entries of the window are in non-decreasing order of timestamp afterwards: from
  the empty window the composable starts with, and from any window whose entries are
  in order.
\<close>

theorem C5_merges_keep_entries_sorted:
  "sorted (map timestamp (lokiLogs (mergeAll ops initialState)))
   \<and> (sorted (map timestamp (lokiLogs st))
        \<longrightarrow> sorted (map timestamp (lokiLogs (mergeAll ops st))))"
proof -
  have "sorted (map timestamp (lokiLogs initialState))"
    by (simp add: initialState_def)
  then have "sorted (map timestamp (lokiLogs (mergeAll ops initialState)))"
    by (rule mergeAll_sorted)
  then show ?thesis by (simp add: mergeAll_sorted)
qed

theorem C5_merges_keep_entries_sorted_witness:
  "lokiLogs (mergeAll [(Logs [entryB, entryA], False), (Logs [entryC], True),
                       (Logs [entryA], False)] initialState) = [entryC, entryA, entryB]
   \<and> sorted (map timestamp [entryC, entryA, entryB])"
proof -
  let ?ops = "[(Logs [entryB, entryA], False), (Logs [entryC], True), (Logs [entryA], False)]"
  have run: "lokiLogs (mergeAll ?ops initialState) = [entryC, entryA, entryB]"
    by (simp add: fetchLokiLogs_recv_def example_defs entryKey_eq_iff)
  from C5_merges_keep_entries_sorted[of ?ops initialState]
  have "sorted (map timestamp (lokiLogs (mergeAll ?ops initialState)))" by simp
  with run show ?thesis by simp
qed

text \<open>
  C6. Two lines have the same key exactly when they agree on timestamp and raw text.
  After a batch has been merged, merging the same batch again (with either flag) adds
  nothing and leaves the entries and both bounds as they are; with the same flag it
  leaves the whole state as it is.
\<close>

theorem C6_second_merge_of_a_batch_adds_nothing:
  "fst (fetchLokiLogs_recv (Logs batch) q (snd (fetchLokiLogs_recv (Logs batch) p st))) = 0
   \<and> lokiLogs (snd (fetchLokiLogs_recv (Logs batch) q (snd (fetchLokiLogs_recv (Logs batch) p st))))
       = lokiLogs (snd (fetchLokiLogs_recv (Logs batch) p st))
   \<and> lokiEarliestMs (snd (fetchLokiLogs_recv (Logs batch) q (snd (fetchLokiLogs_recv (Logs batch) p st))))
       = lokiEarliestMs (snd (fetchLokiLogs_recv (Logs batch) p st))
   \<and> lokiLatestMs (snd (fetchLokiLogs_recv (Logs batch) q (snd (fetchLokiLogs_recv (Logs batch) p st))))
       = lokiLatestMs (snd (fetchLokiLogs_recv (Logs batch) p st))
   \<and> snd (fetchLokiLogs_recv (Logs batch) p (snd (fetchLokiLogs_recv (Logs batch) p st)))
       = snd (fetchLokiLogs_recv (Logs batch) p st)
   \<and> (entryKey a = entryKey b \<longleftrightarrow> timestamp a = timestamp b \<and> raw a = raw b)"
proof -
  have same: "snd (fetchLokiLogs_recv (Logs batch) p (snd (fetchLokiLogs_recv (Logs batch) p st)))
       = snd (fetchLokiLogs_recv (Logs batch) p st)"
    by (simp add: recv_again) (simp add: recv_empty)
  show ?thesis
    using same entryKey_eq_iff[of a b] by (simp add: recv_again)
qed

theorem C6_second_merge_of_a_batch_adds_nothing_witness:
  "fetchLokiLogs_recv (Logs [entryB, entryA]) False initialState =
     (2, initialState\<lparr> lokiLogs := [entryA, entryB], lokiEarliestMs := 1699998000000,
                        lokiLatestMs := 1699999000000 \<rparr>)
   \<and> fst (fetchLokiLogs_recv (Logs [entryB, entryA]) True
            (snd (fetchLokiLogs_recv (Logs [entryB, entryA]) False initialState))) = 0
   \<and> lokiLogs (snd (fetchLokiLogs_recv (Logs [entryB, entryA]) True
            (snd (fetchLokiLogs_recv (Logs [entryB, entryA]) False initialState))))
       = [entryA, entryB]"
proof -
  have first: "fetchLokiLogs_recv (Logs [entryB, entryA]) False initialState =
     (2, initialState\<lparr> lokiLogs := [entryA, entryB], lokiEarliestMs := 1699998000000,
                        lokiLatestMs := 1699999000000 \<rparr>)"
    by (simp add: fetchLokiLogs_recv_def example_defs entryKey_eq_iff)
  from C6_second_merge_of_a_batch_adds_nothing
         [of "[entryB, entryA]" True False initialState entryA entryB]
  have "fst (fetchLokiLogs_recv (Logs [entryB, entryA]) True
            (snd (fetchLokiLogs_recv (Logs [entryB, entryA]) False initialState))) = 0"
    and "lokiLogs (snd (fetchLokiLogs_recv (Logs [entryB, entryA]) True
            (snd (fetchLokiLogs_recv (Logs [entryB, entryA]) False initialState))))
       = lokiLogs (snd (fetchLokiLogs_recv (Logs [entryB, entryA]) False initialState))"
    by blast+
  then show ?thesis unfolding first by simp
qed

text \<open>
  C7. When the part of \<open>fetchLokiLogs\<close> after the await reports that it added at least
  one entry, the window is not empty, \<open>lokiEarliestMs\<close> is the least timestamp among its
  entries and \<open>lokiLatestMs\<close> the greatest.
\<close>

theorem C7_bounds_are_min_and_max_after_adding:
  assumes "0 < fst (fetchLokiLogs_recv result prepend st)"
  shows "lokiLogs (snd (fetchLokiLogs_recv result prepend st)) \<noteq> []
    \<and> lokiEarliestMs (snd (fetchLokiLogs_recv result prepend st))
        = Min (timestamp ` set (lokiLogs (snd (fetchLokiLogs_recv result prepend st))))
    \<and> lokiLatestMs (snd (fetchLokiLogs_recv result prepend st))
        = Max (timestamp ` set (lokiLogs (snd (fetchLokiLogs_recv result prepend st))))"
proof (cases rule: recv_cases[where r=result and st=st])
  case (merge newLogs)
  let ?m = "sort_key timestamp (if prepend then uniqueNew newLogs st @ lokiLogs st
                                 else lokiLogs st @ uniqueNew newLogs st)"
  have ne: "?m \<noteq> []" using merge(2) by (simp add: sort_key_Nil_iff)
  have srt: "sorted (map timestamp ?m)" by (rule sorted_sort_key)
  from sorted_hd_Min_key[OF srt ne] sorted_last_Max_key[OF srt ne] ne
  show ?thesis unfolding merge(1) recv_merge[OF merge(2)] by simp
qed (use assms in \<open>simp_all add: recv_FetchError recv_NoLogs recv_empty recv_duplicates\<close>)

theorem C7_bounds_are_min_and_max_after_adding_witness:
  "0 < fst (fetchLokiLogs_recv (Logs [entryB, entryA]) False initialState)
   \<and> lokiEarliestMs (snd (fetchLokiLogs_recv (Logs [entryB, entryA]) False initialState))
       = Min (timestamp ` set (lokiLogs (snd (fetchLokiLogs_recv (Logs [entryB, entryA]) False initialState))))
   \<and> lokiLatestMs (snd (fetchLokiLogs_recv (Logs [entryB, entryA]) False initialState))
       = Max (timestamp ` set (lokiLogs (snd (fetchLokiLogs_recv (Logs [entryB, entryA]) False initialState))))
   \<and> lokiEarliestMs (snd (fetchLokiLogs_recv (Logs [entryB, entryA]) False initialState))
       = 1699998000000
   \<and> lokiLatestMs (snd (fetchLokiLogs_recv (Logs [entryB, entryA]) False initialState))
       = 1699999000000"
proof -
  have first: "fetchLokiLogs_recv (Logs [entryB, entryA]) False initialState =
     (2, initialState\<lparr> lokiLogs := [entryA, entryB], lokiEarliestMs := 1699998000000,
                        lokiLatestMs := 1699999000000 \<rparr>)"
    by (simp add: fetchLokiLogs_recv_def example_defs entryKey_eq_iff)
  then have pos: "0 < fst (fetchLokiLogs_recv (Logs [entryB, entryA]) False initialState)"
    by simp
  from C7_bounds_are_min_and_max_after_adding[OF pos] pos first
  show ?thesis by simp
qed

text \<open>
  C8, as the code has it. When \<open>loadNewerLogs\<close> passes its guard it sets its flag and
  sends one forward query that ends at the second clock reading and starts at
  \<open>lokiLatestMs + 1\<close> when \<open>lokiLatestMs\<close> is positive, and at the first clock reading
  minus 3600000 otherwise, both computed in the Numbers of the source: the sum is exact
  while \<open>lokiLatestMs\<close> is below \<open>2 ^ 53\<close>, the difference while the clock reading is at
  most \<open>2 ^ 53 - 3600000\<close> in magnitude. The response is merged with \<open>prepend\<close> false,
  and the call returns the number of entries by which the window grew.
\<close>

theorem C8_loadNewer_query_and_count:
  assumes "\<not> lokiLoadingNewer st"
  shows "loadNewerLogs_call v now1 now2 st =
           st\<lparr> lokiLoadingNewer := True,
               fetches := fetches st @
                 [\<lparr> start_ms = (if lokiLatestMs st > 0 then numAdd (lokiLatestMs st) 1
                                  else numSub now1 3600000),
                    end_ms = now2,
                    limit = (case v of WindowAttached \<Rightarrow> 50 | ModuleScoped \<Rightarrow> 500),
                    scan = Forward \<rparr>] \<rparr>
    \<and> (0 < lokiLatestMs st \<and> lokiLatestMs st < 9007199254740992 \<longrightarrow>
          numAdd (lokiLatestMs st) 1 = lokiLatestMs st + 1)
    \<and> (\<bar>now1\<bar> \<le> 9007199251140992 \<longrightarrow> numSub now1 3600000 = now1 - 3600000)
    \<and> lokiLogs (snd (loadNewerLogs v now1 now2 result st))
         = lokiLogs (snd (fetchLokiLogs_recv result False st))
    \<and> fst (loadNewerLogs v now1 now2 result st)
         = Some (length (lokiLogs (snd (loadNewerLogs v now1 now2 result st))) - length (lokiLogs st))
    \<and> length (lokiLogs st) \<le> length (lokiLogs (snd (loadNewerLogs v now1 now2 result st)))
    \<and> (uniqueNew newLogs st \<noteq> [] \<longrightarrow>
          lokiLogs (snd (loadNewerLogs v now1 now2 (Logs newLogs) st))
            = sort_key timestamp (lokiLogs st @ uniqueNew newLogs st)
          \<and> fst (loadNewerLogs v now1 now2 (Logs newLogs) st) = Some (length (uniqueNew newLogs st)))"
proof -
  have query: "loadNewerLogs_call v now1 now2 st =
           st\<lparr> lokiLoadingNewer := True,
               fetches := fetches st @
                 [\<lparr> start_ms = (if lokiLatestMs st > 0 then numAdd (lokiLatestMs st) 1
                                  else numSub now1 3600000),
                    end_ms = now2,
                    limit = (case v of WindowAttached \<Rightarrow> 50 | ModuleScoped \<Rightarrow> 500),
                    scan = Forward \<rparr>] \<rparr>"
    by (simp add: newer_call_starts[OF assms] fetchLimit_def)
  have exact1: "0 < lokiLatestMs st \<and> lokiLatestMs st < 9007199254740992 \<longrightarrow>
          numAdd (lokiLatestMs st) 1 = lokiLatestMs st + 1"
  proof
    assume "0 < lokiLatestMs st \<and> lokiLatestMs st < 9007199254740992"
    then show "numAdd (lokiLatestMs st) 1 = lokiLatestMs st + 1"
      by (intro numAdd_exact) arith
  qed
  have exact2: "\<bar>now1\<bar> \<le> 9007199251140992 \<longrightarrow> numSub now1 3600000 = now1 - 3600000"
  proof
    assume "\<bar>now1\<bar> \<le> 9007199251140992"
    then show "numSub now1 3600000 = now1 - 3600000"
      by (intro numSub_exact) arith
  qed
  have count: "lokiLogs (snd (loadNewerLogs v now1 now2 result st))
         = lokiLogs (snd (fetchLokiLogs_recv result False st))
    \<and> fst (loadNewerLogs v now1 now2 result st)
         = Some (length (lokiLogs (snd (loadNewerLogs v now1 now2 result st))) - length (lokiLogs st))
    \<and> length (lokiLogs st) \<le> length (lokiLogs (snd (loadNewerLogs v now1 now2 result st)))"
    using recv_count_is_growth[of result False st]
    by (simp add: newer_result(1,2)[OF assms])
  have merge: "uniqueNew newLogs st \<noteq> [] \<longrightarrow>
          lokiLogs (snd (loadNewerLogs v now1 now2 (Logs newLogs) st))
            = sort_key timestamp (lokiLogs st @ uniqueNew newLogs st)
          \<and> fst (loadNewerLogs v now1 now2 (Logs newLogs) st) = Some (length (uniqueNew newLogs st))"
    by (simp add: newer_result(1,2)[OF assms] recv_merge)
  from query exact1 exact2 count merge show ?thesis
    by blast
qed

theorem C8_loadNewer_query_and_count_witness:
  "\<not> lokiLoadingNewer loadedState \<and> \<not> lokiLoadingNewer initialState
   \<and> 0 < lokiLatestMs loadedState \<and> lokiLatestMs loadedState < 9007199254740992
   \<and> fetches (loadNewerLogs_call WindowAttached 1700000005000 1700000005001 loadedState) =
       [\<lparr> start_ms = 1699996400000, end_ms = 1700000000000, limit = 50, scan = Backward \<rparr>,
        \<lparr> start_ms = 1699999000001, end_ms = 1700000005001, limit = 50, scan = Forward \<rparr>]
   \<and> fetches (loadNewerLogs_call WindowAttached 1700000005000 1700000005001 initialState) =
       [\<lparr> start_ms = 1699996405000, end_ms = 1700000005001, limit = 50, scan = Forward \<rparr>]
   \<and> uniqueNew [entryB, entryC] loadedState = [entryC]
   \<and> lokiLogs (snd (loadNewerLogs WindowAttached 1700000005000 1700000005001
                        (Logs [entryB, entryC]) loadedState)) = [entryC, entryA, entryB]
   \<and> fst (loadNewerLogs WindowAttached 1700000005000 1700000005001 (Logs [entryB, entryC]) loadedState)
       = Some 1"
proof -
  have pre: "\<not> lokiLoadingNewer loadedState" by (simp add: loadedState_eq initialState_def)
  have pre0: "\<not> lokiLoadingNewer initialState" by (simp add: initialState_def)
  have new: "uniqueNew [entryB, entryC] loadedState = [entryC]"
    by (simp add: uniqueNew_def loadedState_eq example_defs entryKey_eq_iff)
  have old: "fetches loadedState =
       [\<lparr> start_ms = 1699996400000, end_ms = 1700000000000, limit = 50, scan = Backward \<rparr>]"
    "lokiLatestMs loadedState = 1699999000000" "lokiLogs loadedState = [entryA, entryB]"
    "fetches initialState = []" "lokiLatestMs initialState = 0"
    by (simp_all add: loadedState_eq initialState_def)
  have small: "0 < lokiLatestMs loadedState \<and> lokiLatestMs loadedState < 9007199254740992"
    "\<bar>1700000005000 :: int\<bar> \<le> 9007199251140992"
    by (simp_all add: old)
  have sorted: "sort_key timestamp ([entryA, entryB] @ [entryC]) = [entryC, entryA, entryB]"
    by (simp add: example_defs)
  note inst = C8_loadNewer_query_and_count
         [OF pre, where v = WindowAttached and ?now1.0 = 1700000005000
            and ?now2.0 = 1700000005001 and newLogs = "[entryB, entryC]"
            and result = "Logs [entryB, entryC]"]
  note inst0 = C8_loadNewer_query_and_count
         [OF pre0, where v = WindowAttached and ?now1.0 = 1700000005000
            and ?now2.0 = 1700000005001 and result = NoLogs and newLogs = "[]"]
  from inst have a1: "loadNewerLogs_call WindowAttached 1700000005000 1700000005001 loadedState =
           loadedState\<lparr> lokiLoadingNewer := True,
               fetches := fetches loadedState @
                 [\<lparr> start_ms = (if lokiLatestMs loadedState > 0 then numAdd (lokiLatestMs loadedState) 1
                                  else numSub 1700000005000 3600000),
                    end_ms = 1700000005001, limit = 50, scan = Forward \<rparr>] \<rparr>"
    by simp
  from inst small(1) have x1: "numAdd (lokiLatestMs loadedState) 1 = lokiLatestMs loadedState + 1"
    by blast
  from inst have a2: "uniqueNew [entryB, entryC] loadedState \<noteq> [] \<longrightarrow>
          lokiLogs (snd (loadNewerLogs WindowAttached 1700000005000 1700000005001
                           (Logs [entryB, entryC]) loadedState))
            = sort_key timestamp (lokiLogs loadedState @ uniqueNew [entryB, entryC] loadedState)
          \<and> fst (loadNewerLogs WindowAttached 1700000005000 1700000005001
                    (Logs [entryB, entryC]) loadedState)
              = Some (length (uniqueNew [entryB, entryC] loadedState))"
    by (rule conjunct2[THEN conjunct2, THEN conjunct2, THEN conjunct2, THEN conjunct2,
                       THEN conjunct2])
  from inst0 have b1: "loadNewerLogs_call WindowAttached 1700000005000 1700000005001 initialState =
           initialState\<lparr> lokiLoadingNewer := True,
               fetches := fetches initialState @
                 [\<lparr> start_ms = (if lokiLatestMs initialState > 0 then numAdd (lokiLatestMs initialState) 1
                                  else numSub 1700000005000 3600000),
                    end_ms = 1700000005001, limit = 50, scan = Forward \<rparr>] \<rparr>"
    by simp
  from inst0 small(2) have x2: "numSub 1700000005000 3600000 = 1700000005000 - 3600000"
    by blast
  have f1: "fetches (loadNewerLogs_call WindowAttached 1700000005000 1700000005001 loadedState) =
       [\<lparr> start_ms = 1699996400000, end_ms = 1700000000000, limit = 50, scan = Backward \<rparr>,
        \<lparr> start_ms = 1699999000001, end_ms = 1700000005001, limit = 50, scan = Forward \<rparr>]"
    unfolding a1 x1 old by simp
  have f0: "fetches (loadNewerLogs_call WindowAttached 1700000005000 1700000005001 initialState) =
       [\<lparr> start_ms = 1699996405000, end_ms = 1700000005001, limit = 50, scan = Forward \<rparr>]"
    unfolding b1 x2 old by simp
  from a2 new old(3) sorted
  have a3: "lokiLogs (snd (loadNewerLogs WindowAttached 1700000005000 1700000005001
                        (Logs [entryB, entryC]) loadedState)) = [entryC, entryA, entryB]
     \<and> fst (loadNewerLogs WindowAttached 1700000005000 1700000005001 (Logs [entryB, entryC]) loadedState)
         = Some 1"
    by simp
  with pre pre0 new small(1) f1 f0 show ?thesis by simp
qed

text \<open>
  The claim as written fails in three places. On \<open>staleState\<close> the window is empty, yet
  the query starts one millisecond after the old \<open>lokiLatestMs\<close>, not one hour before
  the clock reading. On a window holding one line with timestamp 0 the window is not
  empty, yet the query starts one hour before the clock reading, not at 1. And on
  \<open>farState\<close>, whose \<open>lokiLatestMs\<close> is \<open>2 ^ 53 + 2\<close>, the query starts at \<open>2 ^ 53 + 4\<close>,
  not at \<open>lokiLatestMs + 1\<close>.
\<close>

theorem C8_start_follows_lokiLatestMs_not_emptiness:
  "lokiLogs staleState = [] \<and> \<not> lokiLoadingNewer staleState
   \<and> start_ms (last (fetches (loadNewerLogs_call WindowAttached 1700003005000 1700003005000 staleState)))
       = 1699999000001
   \<and> start_ms (last (fetches (loadNewerLogs_call WindowAttached 1700003005000 1700003005000 staleState)))
       \<noteq> 1700003005000 - 3600000
   \<and> lokiLogs (snd (fetchLokiLogs_recv (Logs [entryZero]) False initialState)) = [entryZero]
   \<and> lokiLatestMs (snd (fetchLokiLogs_recv (Logs [entryZero]) False initialState)) = 0
   \<and> start_ms (last (fetches (loadNewerLogs_call WindowAttached 1700003005000 1700003005000
         (snd (fetchLokiLogs_recv (Logs [entryZero]) False initialState)))))
       = 1700003005000 - 3600000
   \<and> start_ms (last (fetches (loadNewerLogs_call WindowAttached 1700003005000 1700003005000
         (snd (fetchLokiLogs_recv (Logs [entryZero]) False initialState)))))
       \<noteq> 0 + 1
   \<and> lokiLogs farState = [entryFar] \<and> \<not> lokiLoadingNewer farState
   \<and> lokiLatestMs farState = 9007199254740994
   \<and> start_ms (last (fetches (loadNewerLogs_call WindowAttached 1700003005000 1700003005000 farState)))
       = 9007199254740996
   \<and> start_ms (last (fetches (loadNewerLogs_call WindowAttached 1700003005000 1700003005000 farState)))
       \<noteq> lokiLatestMs farState + 1"
proof -
  have zero: "snd (fetchLokiLogs_recv (Logs [entryZero]) False initialState)
      = initialState\<lparr> lokiLogs := [entryZero], lokiEarliestMs := 0, lokiLatestMs := 0 \<rparr>"
    by (simp add: fetchLokiLogs_recv_def initialState_def entryZero_def)
  have far: "lokiLogs farState = [entryFar] \<and> \<not> lokiLoadingNewer farState
   \<and> lokiLatestMs farState = 9007199254740994
   \<and> start_ms (last (fetches (loadNewerLogs_call WindowAttached 1700003005000 1700003005000 farState)))
       = 9007199254740996
   \<and> start_ms (last (fetches (loadNewerLogs_call WindowAttached 1700003005000 1700003005000 farState)))
       \<noteq> lokiLatestMs farState + 1"
    by (simp add: loadNewerLogs_call_def fetchLokiLogs_send_def farState_eq initialState_def
          numAdd_above_safe)
  have near: "lokiLogs staleState = [] \<and> \<not> lokiLoadingNewer staleState
   \<and> start_ms (last (fetches (loadNewerLogs_call WindowAttached 1700003005000 1700003005000 staleState)))
       = 1699999000001
   \<and> start_ms (last (fetches (loadNewerLogs_call WindowAttached 1700003005000 1700003005000 staleState)))
       \<noteq> 1700003005000 - 3600000"
    by (simp add: loadNewerLogs_call_def fetchLokiLogs_send_def staleState_eq initialState_def)
  have nil: "lokiLogs (snd (fetchLokiLogs_recv (Logs [entryZero]) False initialState)) = [entryZero]
   \<and> lokiLatestMs (snd (fetchLokiLogs_recv (Logs [entryZero]) False initialState)) = 0
   \<and> start_ms (last (fetches (loadNewerLogs_call WindowAttached 1700003005000 1700003005000
         (snd (fetchLokiLogs_recv (Logs [entryZero]) False initialState)))))
       = 1700003005000 - 3600000
   \<and> start_ms (last (fetches (loadNewerLogs_call WindowAttached 1700003005000 1700003005000
         (snd (fetchLokiLogs_recv (Logs [entryZero]) False initialState)))))
       \<noteq> 0 + 1"
    unfolding zero
    by (simp add: loadNewerLogs_call_def fetchLokiLogs_send_def initialState_def)
  from near nil far show ?thesis by blast
qed

text \<open>
  C9. Once \<open>loadOlderLogs\<close> has passed its guard, and for as long as the response to
  its query has not arrived, whatever else happens on the page, a further call of
  \<open>loadOlderLogs\<close> changes nothing and sends nothing: two calls send one query. The same
  holds for \<open>loadNewerLogs\<close>. Neither guard reads the flag of the other operation:
  with an older-load suspended a newer-load starts and sends its query, and the other
  way round, and then both flags are set.
\<close>

theorem C9_one_fetch_per_direction_in_flight:
  "(\<not> loadOlderLogs_skips st \<and> (\<forall>e \<in> set es. \<not> isOlderResponse e) \<longrightarrow>
      length (fetches (loadOlderLogs_call v st)) = Suc (length (fetches st))
      \<and> lokiLoadingOlder (run v es (loadOlderLogs_call v st))
      \<and> step v OlderCall (run v es (loadOlderLogs_call v st)) = run v es (loadOlderLogs_call v st)
      \<and> fetches (loadOlderLogs_call v (loadOlderLogs_call v st)) = fetches (loadOlderLogs_call v st))
   \<and> (\<not> lokiLoadingNewer st \<and> (\<forall>e \<in> set es. \<not> isNewerResponse e) \<longrightarrow>
      length (fetches (loadNewerLogs_call v now1 now2 st)) = Suc (length (fetches st))
      \<and> lokiLoadingNewer (run v es (loadNewerLogs_call v now1 now2 st))
      \<and> step v (NewerCall now3 now4) (run v es (loadNewerLogs_call v now1 now2 st))
            = run v es (loadNewerLogs_call v now1 now2 st)
      \<and> fetches (loadNewerLogs_call v now3 now4 (loadNewerLogs_call v now1 now2 st))
            = fetches (loadNewerLogs_call v now1 now2 st))
   \<and> (lokiLoadingOlder st \<and> \<not> lokiLoadingNewer st \<longrightarrow>
      lokiLoadingOlder (loadNewerLogs_call v now1 now2 st)
      \<and> lokiLoadingNewer (loadNewerLogs_call v now1 now2 st)
      \<and> length (fetches (loadNewerLogs_call v now1 now2 st)) = Suc (length (fetches st)))
   \<and> (lokiLoadingNewer st \<and> \<not> loadOlderLogs_skips st \<longrightarrow>
      lokiLoadingOlder (loadOlderLogs_call v st)
      \<and> lokiLoadingNewer (loadOlderLogs_call v st)
      \<and> length (fetches (loadOlderLogs_call v st)) = Suc (length (fetches st)))"
proof -
  have older: "length (fetches (loadOlderLogs_call v st)) = Suc (length (fetches st))
      \<and> lokiLoadingOlder (run v es (loadOlderLogs_call v st))
      \<and> step v OlderCall (run v es (loadOlderLogs_call v st)) = run v es (loadOlderLogs_call v st)
      \<and> fetches (loadOlderLogs_call v (loadOlderLogs_call v st)) = fetches (loadOlderLogs_call v st)"
    if go: "\<not> loadOlderLogs_skips st" and quiet: "\<forall>e \<in> set es. \<not> isOlderResponse e"
  proof -
    have flag: "lokiLoadingOlder (loadOlderLogs_call v st)"
      by (simp add: older_call_starts[OF go])
    from run_keeps_loadingOlder[OF flag quiet]
    have later: "lokiLoadingOlder (run v es (loadOlderLogs_call v st))" .
    show ?thesis
      using later flag
      by (simp add: older_call_in_flight) (simp add: older_call_starts[OF go])
  qed
  have newer: "length (fetches (loadNewerLogs_call v now1 now2 st)) = Suc (length (fetches st))
      \<and> lokiLoadingNewer (run v es (loadNewerLogs_call v now1 now2 st))
      \<and> step v (NewerCall now3 now4) (run v es (loadNewerLogs_call v now1 now2 st))
            = run v es (loadNewerLogs_call v now1 now2 st)
      \<and> fetches (loadNewerLogs_call v now3 now4 (loadNewerLogs_call v now1 now2 st))
            = fetches (loadNewerLogs_call v now1 now2 st)"
    if go: "\<not> lokiLoadingNewer st" and quiet: "\<forall>e \<in> set es. \<not> isNewerResponse e"
  proof -
    have flag: "lokiLoadingNewer (loadNewerLogs_call v now1 now2 st)"
      by (simp add: newer_call_starts[OF go])
    from run_keeps_loadingNewer[OF flag quiet]
    have later: "lokiLoadingNewer (run v es (loadNewerLogs_call v now1 now2 st))" .
    show ?thesis
      using later flag
      by (simp add: newer_call_in_flight) (simp add: newer_call_starts[OF go])
  qed
  have both1: "lokiLoadingOlder (loadNewerLogs_call v now1 now2 st)
      \<and> lokiLoadingNewer (loadNewerLogs_call v now1 now2 st)
      \<and> length (fetches (loadNewerLogs_call v now1 now2 st)) = Suc (length (fetches st))"
    if "lokiLoadingOlder st" and go: "\<not> lokiLoadingNewer st"
    using that by (simp add: newer_call_starts[OF go])
  have both2: "lokiLoadingOlder (loadOlderLogs_call v st)
      \<and> lokiLoadingNewer (loadOlderLogs_call v st)
      \<and> length (fetches (loadOlderLogs_call v st)) = Suc (length (fetches st))"
    if "lokiLoadingNewer st" and go: "\<not> loadOlderLogs_skips st"
    using that by (simp add: older_call_starts[OF go])
  from older newer both1 both2 show ?thesis by blast
qed

theorem C9_one_fetch_per_direction_in_flight_witness:
  "\<not> loadOlderLogs_skips loadedState
   \<and> length (fetches loadedState) = 1
   \<and> length (fetches olderPending) = 2
   \<and> step WindowAttached OlderCall
        (run WindowAttached [NewerCall 1700000005000 1700000005001, Toggle ''ai''] olderPending)
      = run WindowAttached [NewerCall 1700000005000 1700000005001, Toggle ''ai''] olderPending
   \<and> \<not> lokiLoadingNewer loadedState
   \<and> length (fetches newerPending) = 2
   \<and> step WindowAttached (NewerCall 1700000007000 1700000007001)
        (run WindowAttached [OlderCall, Clear] newerPending)
      = run WindowAttached [OlderCall, Clear] newerPending
   \<and> lokiLoadingOlder olderPending \<and> \<not> lokiLoadingNewer olderPending
   \<and> lokiLoadingOlder (loadNewerLogs_call WindowAttached 1700000005000 1700000005001 olderPending)
   \<and> lokiLoadingNewer (loadNewerLogs_call WindowAttached 1700000005000 1700000005001 olderPending)
   \<and> length (fetches (loadNewerLogs_call WindowAttached 1700000005000 1700000005001 olderPending)) = 3
   \<and> lokiLoadingNewer newerPending \<and> \<not> loadOlderLogs_skips newerPending
   \<and> lokiLoadingOlder (loadOlderLogs_call WindowAttached newerPending)
   \<and> lokiLoadingNewer (loadOlderLogs_call WindowAttached newerPending)
   \<and> length (fetches (loadOlderLogs_call WindowAttached newerPending)) = 3"
proof -
  let ?es1 = "[NewerCall 1700000005000 1700000005001, Toggle ''ai'']"
  let ?es2 = "[OlderCall, Clear]"
  have h1: "\<not> loadOlderLogs_skips loadedState" "\<forall>e \<in> set ?es1. \<not> isOlderResponse e"
    by (simp_all add: loadedState_eq loadOlderLogs_skips_def initialState_def)
  have h2: "\<not> lokiLoadingNewer loadedState" "\<forall>e \<in> set ?es2. \<not> isNewerResponse e"
    by (simp_all add: loadedState_eq initialState_def)
  have h3: "lokiLoadingOlder olderPending" "\<not> lokiLoadingNewer olderPending"
    by (simp_all add: olderPending_eq initialState_def)
  have h4: "lokiLoadingNewer newerPending" "\<not> loadOlderLogs_skips newerPending"
    by (simp_all add: newerPending_eq loadOlderLogs_skips_def initialState_def)
  have n: "length (fetches loadedState) = 1" "length (fetches olderPending) = 2"
    "length (fetches newerPending) = 2"
    by (simp_all add: loadedState_eq olderPending_eq newerPending_eq initialState_def)
  from C9_one_fetch_per_direction_in_flight
         [where st = loadedState and es = ?es1 and v = WindowAttached] h1
  have c1: "step WindowAttached OlderCall (run WindowAttached ?es1 olderPending)
             = run WindowAttached ?es1 olderPending"
    unfolding olderPending_def by blast
  from C9_one_fetch_per_direction_in_flight
         [where st = loadedState and es = ?es2 and v = WindowAttached
            and ?now1.0 = 1700000005000 and ?now2.0 = 1700000005001
            and ?now3.0 = 1700000007000 and ?now4.0 = 1700000007001] h2
  have c2: "step WindowAttached (NewerCall 1700000007000 1700000007001)
              (run WindowAttached ?es2 newerPending) = run WindowAttached ?es2 newerPending"
    unfolding newerPending_def by blast
  from C9_one_fetch_per_direction_in_flight
         [where st = olderPending and v = WindowAttached
            and ?now1.0 = 1700000005000 and ?now2.0 = 1700000005001] h3
  have c3: "lokiLoadingOlder (loadNewerLogs_call WindowAttached 1700000005000 1700000005001 olderPending)
      \<and> lokiLoadingNewer (loadNewerLogs_call WindowAttached 1700000005000 1700000005001 olderPending)
      \<and> length (fetches (loadNewerLogs_call WindowAttached 1700000005000 1700000005001 olderPending))
          = Suc (length (fetches olderPending))"
    by blast
  from C9_one_fetch_per_direction_in_flight[where st = newerPending and v = WindowAttached] h4
  have c4: "lokiLoadingOlder (loadOlderLogs_call WindowAttached newerPending)
      \<and> lokiLoadingNewer (loadOlderLogs_call WindowAttached newerPending)
      \<and> length (fetches (loadOlderLogs_call WindowAttached newerPending))
          = Suc (length (fetches newerPending))"
    by blast
  from h1(1) h2(1) h3 h4 n c1 c2 c3 c4 show ?thesis by simp
qed

text \<open>
  C10. In every state the page can reach from the initial one, the service filter
  holds at least one service. Only \<open>toggleServiceFilter\<close> changes the filter: it removes
  a selected service when more than one is selected, leaves the state as it is when
  the service is the only one selected, and appends a service that is not selected. So
  in every reachable state some selected service exists, and the filtered view shows
  every line of that service.
\<close>

theorem C10_service_filter_never_empty:
  "lokiServiceFilter (run v es initialState) \<noteq> []
   \<and> (lokiServiceFilter st \<noteq> [] \<longrightarrow> lokiServiceFilter (step v e st) \<noteq> [])
   \<and> (\<not> (\<exists>s. e = Toggle s) \<longrightarrow> lokiServiceFilter (step v e st) = lokiServiceFilter st)
   \<and> (svc \<in> set (lokiServiceFilter st) \<and> 1 < length (lokiServiceFilter st)
        \<longrightarrow> lokiServiceFilter (toggleServiceFilter svc st) = remove1 svc (lokiServiceFilter st))
   \<and> (svc \<in> set (lokiServiceFilter st) \<and> length (lokiServiceFilter st) \<le> 1
        \<longrightarrow> toggleServiceFilter svc st = st)
   \<and> (svc \<notin> set (lokiServiceFilter st)
        \<longrightarrow> lokiServiceFilter (toggleServiceFilter svc st) = lokiServiceFilter st @ [svc])
   \<and> (\<exists>s. s \<in> set (lokiServiceFilter (run v es initialState))
          \<and> (\<forall>l \<in> set (lokiLogs (run v es initialState)).
                service l = s \<longrightarrow> l \<in> set (filteredLokiLogs (run v es initialState))))"
proof -
  have init: "lokiServiceFilter initialState \<noteq> []" by (simp add: initialState_def)
  then have ne: "lokiServiceFilter (run v es initialState) \<noteq> []" by (rule run_filter_nonempty)
  then obtain s where s: "s \<in> set (lokiServiceFilter (run v es initialState))"
    by (cases "lokiServiceFilter (run v es initialState)") auto
  then have view: "\<forall>l \<in> set (lokiLogs (run v es initialState)).
                service l = s \<longrightarrow> l \<in> set (filteredLokiLogs (run v es initialState))"
    by (simp add: filteredLokiLogs_def)
  have only: "\<not> (\<exists>s. e = Toggle s) \<longrightarrow> lokiServiceFilter (step v e st) = lokiServiceFilter st"
    by (simp add: step_filter split: event.split)
  have tog: "(svc \<in> set (lokiServiceFilter st) \<and> 1 < length (lokiServiceFilter st)
        \<longrightarrow> lokiServiceFilter (toggleServiceFilter svc st) = remove1 svc (lokiServiceFilter st))
   \<and> (svc \<in> set (lokiServiceFilter st) \<and> length (lokiServiceFilter st) \<le> 1
        \<longrightarrow> toggleServiceFilter svc st = st)
   \<and> (svc \<notin> set (lokiServiceFilter st)
        \<longrightarrow> lokiServiceFilter (toggleServiceFilter svc st) = lokiServiceFilter st @ [svc])"
    by (simp add: toggleServiceFilter_def)
  from ne only tog s view show ?thesis
    using step_filter_nonempty[of st v e] by blast
qed

theorem C10_service_filter_never_empty_witness:
  "lokiServiceFilter (run WindowAttached
      [Toggle ''ai'', Toggle ''base'', Toggle ''server'', Toggle ''server''] initialState)
     = [''server'']
   \<and> lokiServiceFilter (run WindowAttached
      [Toggle ''ai'', Toggle ''base'', Toggle ''server'', Toggle ''server''] initialState) \<noteq> []
   \<and> lokiServiceFilter initialState = [''ai'', ''base'', ''server'']
   \<and> lokiServiceFilter (toggleServiceFilter ''ai'' initialState) = [''base'', ''server'']
   \<and> lokiServiceFilter serverOnlyState = [''server'']
   \<and> toggleServiceFilter ''server'' serverOnlyState = serverOnlyState
   \<and> lokiServiceFilter (toggleServiceFilter ''ai'' serverOnlyState) = [''server'', ''ai'']
   \<and> lokiServiceFilter (step WindowAttached Clear serverOnlyState) = [''server'']"
proof -
  let ?es = "[Toggle ''ai'', Toggle ''base'', Toggle ''server'', Toggle ''server'']"
  have f0: "lokiServiceFilter initialState = [''ai'', ''base'', ''server'']"
    by (simp add: initialState_def)
  have f1: "lokiServiceFilter serverOnlyState = [''server'']"
    by (simp add: serverOnlyState_eq)
  have r: "lokiServiceFilter (run WindowAttached ?es initialState) = [''server'']"
    by (simp add: run_def toggleServiceFilter_def initialState_def)
  from C10_service_filter_never_empty[where v = WindowAttached and es = ?es]
  have ne: "lokiServiceFilter (run WindowAttached ?es initialState) \<noteq> []"
    by (rule conjunct1)
  have in0: "''ai'' \<in> set (lokiServiceFilter initialState)" "1 < length (lokiServiceFilter initialState)"
    by (simp_all add: f0)
  from C10_service_filter_never_empty[where st = initialState and svc = "''ai''"] in0
  have t1: "lokiServiceFilter (toggleServiceFilter ''ai'' initialState)
              = remove1 ''ai'' (lokiServiceFilter initialState)"
    by blast
  have in1: "''server'' \<in> set (lokiServiceFilter serverOnlyState)"
    "length (lokiServiceFilter serverOnlyState) \<le> 1"
    by (simp_all add: f1)
  from C10_service_filter_never_empty[where st = serverOnlyState and svc = "''server''"] in1
  have t2: "toggleServiceFilter ''server'' serverOnlyState = serverOnlyState"
    by blast
  have out1: "''ai'' \<notin> set (lokiServiceFilter serverOnlyState)" by (simp add: f1)
  from C10_service_filter_never_empty[where st = serverOnlyState and svc = "''ai''"] out1
  have t3: "lokiServiceFilter (toggleServiceFilter ''ai'' serverOnlyState)
              = lokiServiceFilter serverOnlyState @ [''ai'']"
    by blast
  have "\<not> (\<exists>s. Clear = Toggle s)" by simp
  with C10_service_filter_never_empty[where st = serverOnlyState and v = WindowAttached and e = Clear]
  have t4: "lokiServiceFilter (step WindowAttached Clear serverOnlyState)
              = lokiServiceFilter serverOnlyState"
    by blast
  from r ne f0 f1 t1 t2 t3 t4 show ?thesis by simp
qed

end
